theory Spec2Isabelle
  imports Complex_Main "HOL-Library.Sublist"
begin

section \<open>Python values used by the load tester\<close>

text \<open>
  Python floats (latencies, rates, thresholds) are modelled as rationals: the arithmetic of the
  source is a handful of subtractions, one division and comparisons, and none of the properties
  below is about rounding. Python exceptions that the source can raise are values of
  \<open>error\<close>.
\<close>

datatype error = KeyError string | IndexError | AttributeError string

text \<open>What \<open>resp.json()\<close> or \<open>resp.text()\<close> can hand back: any JSON value (text is a \<open>JStr\<close>).\<close>

datatype json = JNull | JBool bool | JNum int | JStr string | JArr "json list"
  | JObj "(string \<times> json) list"

text \<open>Python truthiness, as used by \<open>not result.get("data")\<close> and \<open>if not cursor\<close>.\<close>

fun truthy :: "json \<Rightarrow> bool" where
  "truthy JNull = False"
| "truthy (JBool b) = b"
| "truthy (JNum n) = (n \<noteq> 0)"
| "truthy (JStr s) = (s \<noteq> [])"
| "truthy (JArr xs) = (xs \<noteq> [])"
| "truthy (JObj kvs) = (kvs \<noteq> [])"

text \<open>\<open>str(n)\<close> for a non-negative integer.\<close>

fun str_nat :: "nat \<Rightarrow> string" where
  "str_nat n = (if n < 10 then [char_of (48 + n)]
                else str_nat (n div 10) @ [char_of (48 + n mod 10)])"

declare str_nat.simps [simp del]

section \<open>RequestMetrics, EndpointStats, MetricsCollector\<close>

text \<open>
  \<open>RequestMetrics\<close> and \<open>EndpointStats\<close> both have a field \<open>success\<close> in the source; the
  field of \<open>RequestMetrics\<close> is \<open>rm_success\<close> here, and its field \<open>method\<close>, a keyword of
  Isabelle, is \<open>http_method\<close>.
\<close>

record RequestMetrics =
  endpoint :: string
  http_method :: string
  status :: nat
  latency_ms :: rat
  rm_success :: bool
  error :: "string option"

record EndpointStats =
  total :: nat
  success :: nat
  failed :: nat
  latencies :: "rat list"
  errors :: "string \<Rightarrow> nat"

text \<open>The dataclass defaults; \<open>errors\<close> is a \<open>defaultdict(int)\<close>.\<close>

definition EndpointStats_new :: EndpointStats where
  "EndpointStats_new =
     \<lparr>total = 0, success = 0, failed = 0, latencies = [], errors = (\<lambda>_. 0)\<rparr>"

definition success_rate :: "EndpointStats \<Rightarrow> rat" where
  "success_rate s =
     (if total s > 0 then of_nat (success s) / of_nat (total s) * 100 else 0)"

text \<open>
  \<open>statistics.median\<close> of the standard library: the middle sample of the sorted data, or the
  mean of the two middle samples when their number is even.
\<close>

definition median :: "rat list \<Rightarrow> rat" where
  "median xs =
     (let d = sort xs; n = length d
      in if n mod 2 = 1 then d ! (n div 2)
         else (d ! (n div 2 - 1) + d ! (n div 2)) / 2)"

definition p50 :: "EndpointStats \<Rightarrow> rat" where
  "p50 s = (if latencies s \<noteq> [] then median (latencies s) else 0)"

text \<open>
  \<open>int(len(sorted_lat) * 0.95)\<close>: the double nearest to 0.95 lies below it by less than 5e-17,
  and the product with a list length rounds to the same integer part as the exact product, so
  the index is \<open>n * 95 div 100\<close> (likewise for 0.99).
\<close>

definition p95 :: "EndpointStats \<Rightarrow> rat" where
  "p95 s =
     (if latencies s = [] then 0
      else let sorted_lat = sort (latencies s);
               idx = length sorted_lat * 95 div 100
           in sorted_lat ! min idx (length sorted_lat - 1))"

definition p99 :: "EndpointStats \<Rightarrow> rat" where
  "p99 s =
     (if latencies s = [] then 0
      else let sorted_lat = sort (latencies s);
               idx = length sorted_lat * 99 div 100
           in sorted_lat ! min idx (length sorted_lat - 1))"

record MetricsCollector =
  requests :: "RequestMetrics list"
  by_endpoint :: "string \<Rightarrow> EndpointStats"
  start_time :: rat
  end_time :: rat
  phase :: string
  setup_requests :: "RequestMetrics list"
  runtime_requests :: "RequestMetrics list"

text \<open>\<open>by_endpoint\<close> is a \<open>defaultdict(EndpointStats)\<close>: every key reads as a fresh bucket.\<close>

definition MetricsCollector_new :: MetricsCollector where
  "MetricsCollector_new =
     \<lparr>requests = [], by_endpoint = (\<lambda>_. EndpointStats_new), start_time = 0, end_time = 0,
      phase = ''setup'', setup_requests = [], runtime_requests = []\<rparr>"

definition set_phase :: "string \<Rightarrow> MetricsCollector \<Rightarrow> MetricsCollector" where
  "set_phase p m = m\<lparr>phase := p\<rparr>"

definition bucket_key :: "RequestMetrics \<Rightarrow> string" where
  "bucket_key metric = http_method metric @ '' '' @ endpoint metric"

definition err_key :: "RequestMetrics \<Rightarrow> string" where
  "err_key metric =
     (if status metric \<noteq> 0 then str_nat (status metric)
      else case error metric of
             None \<Rightarrow> ''unknown''
           | Some e \<Rightarrow> if e \<noteq> [] then e else ''unknown'')"

definition record_stats :: "RequestMetrics \<Rightarrow> EndpointStats \<Rightarrow> EndpointStats" where
  "record_stats metric stats =
     (let stats = stats\<lparr>total := total stats + 1,
                        latencies := latencies stats @ [latency_ms metric]\<rparr>
      in if rm_success metric then stats\<lparr>success := success stats + 1\<rparr>
         else stats\<lparr>failed := failed stats + 1,
                    errors := (errors stats)(err_key metric := errors stats (err_key metric) + 1)\<rparr>)"

definition record_metric :: "RequestMetrics \<Rightarrow> MetricsCollector \<Rightarrow> MetricsCollector" where
  "record_metric metric m =
     (let m = m\<lparr>requests := requests m @ [metric]\<rparr>;
          m = (if phase m = ''setup''
               then m\<lparr>setup_requests := setup_requests m @ [metric]\<rparr>
               else m\<lparr>runtime_requests := runtime_requests m @ [metric]\<rparr>);
          key = bucket_key metric
      in m\<lparr>by_endpoint := (by_endpoint m)(key := record_stats metric (by_endpoint m key))\<rparr>)"

text \<open>The calls a collector receives over a run: phase switches and recordings.\<close>

datatype collector_call = SetPhase string | Record RequestMetrics

fun collector_step :: "MetricsCollector \<Rightarrow> collector_call \<Rightarrow> MetricsCollector" where
  "collector_step m (SetPhase p) = set_phase p m"
| "collector_step m (Record metric) = record_metric metric m"

text \<open>
  The dictionary returned by \<open>get_phase_stats\<close>. The key \<open>success_rate\<close> is missing from the
  dictionary of an empty phase, so it is optional here.
\<close>

record phase_stats =
  ps_total :: nat
  ps_success :: nat
  ps_failed :: nat
  ps_success_rate :: "rat option"
  ps_p50 :: rat
  ps_p95 :: rat
  ps_p99 :: rat

text \<open>List indexing as Python does it for an index that is not negative.\<close>

definition item :: "'a list \<Rightarrow> nat \<Rightarrow> error + 'a" where
  "item xs i = (if i < length xs then Inr (xs ! i) else Inl IndexError)"

definition get_phase_stats :: "MetricsCollector \<Rightarrow> string \<Rightarrow> error + phase_stats" where
  "get_phase_stats m ph =
     (let reqs = (if ph = ''setup'' then setup_requests m else runtime_requests m)
      in if reqs = [] then
           Inr \<lparr>ps_total = 0, ps_success = 0, ps_failed = 0, ps_success_rate = None,
                ps_p50 = 0, ps_p95 = 0, ps_p99 = 0\<rparr>
         else
           let lats = sort (map latency_ms reqs);
               succ = length (filter rm_success reqs)
           in case item lats (length lats div 2) of Inl e \<Rightarrow> Inl e | Inr v50 \<Rightarrow>
              case item lats (length lats * 95 div 100) of Inl e \<Rightarrow> Inl e | Inr v95 \<Rightarrow>
              case item lats (length lats * 99 div 100) of Inl e \<Rightarrow> Inl e | Inr v99 \<Rightarrow>
                Inr \<lparr>ps_total = length reqs, ps_success = succ,
                     ps_failed = length reqs - succ,
                     ps_success_rate = Some (of_nat succ / of_nat (length reqs) * 100),
                     ps_p50 = v50, ps_p95 = v95, ps_p99 = v99\<rparr>)"

section \<open>The verdict\<close>

record thresholds =
  max_error_rate_percent :: rat
  max_p95_latency_ms :: rat

text \<open>
  A failure reason is a formatted line in the source; here it is the pair of numbers the line
  is formatted from: the measured value and the threshold.
\<close>

datatype reason = ErrorRateReason rat rat | P95Reason rat rat

record verdict =
  passed :: bool
  reasons :: "reason list"

text \<open>
  \<open>print_results\<close>, without the rendering. The flag is \<open>RICH_AVAILABLE\<close>. Reading
  \<open>success_rate\<close> from the dictionary of an empty phase raises \<open>KeyError\<close>: line 599 does so for
  the setup phase and line 620 (or 702) for the runtime phase.
\<close>

definition print_results :: "bool \<Rightarrow> thresholds \<Rightarrow> MetricsCollector \<Rightarrow> error + verdict" where
  "print_results rich cfg m =
     (case get_phase_stats m ''setup'' of Inl e \<Rightarrow> Inl e | Inr setup_stats \<Rightarrow>
      case get_phase_stats m ''runtime'' of Inl e \<Rightarrow> Inl e | Inr runtime_stats \<Rightarrow>
      if rich then
        (case ps_success_rate setup_stats of
           None \<Rightarrow> Inl (KeyError ''success_rate'')
         | Some _ \<Rightarrow>
        (case ps_success_rate runtime_stats of
           None \<Rightarrow> Inl (KeyError ''success_rate'')
         | Some runtime_success_rate \<Rightarrow>
             let rate_ok = (runtime_success_rate \<ge> 100 - max_error_rate_percent cfg);
                 p95_ok = (ps_p95 runtime_stats < max_p95_latency_ms cfg);
                 ok = (rate_ok \<and> p95_ok)
             in if ok then Inr \<lparr>passed = True, reasons = []\<rparr>
                else Inr \<lparr>passed = False,
                          reasons =
                            (if \<not> rate_ok
                             then [ErrorRateReason (100 - runtime_success_rate)
                                     (max_error_rate_percent cfg)]
                             else []) @
                            (if \<not> p95_ok
                             then [P95Reason (ps_p95 runtime_stats) (max_p95_latency_ms cfg)]
                             else [])\<rparr>))
      else
        (case ps_success_rate runtime_stats of
           None \<Rightarrow> Inl (KeyError ''success_rate'')
         | Some runtime_success_rate \<Rightarrow>
             Inr \<lparr>passed = (runtime_success_rate \<ge> 95), reasons = []\<rparr>))"

text \<open>\<open>sys.exit(0 if passed else 1)\<close> at the end of \<open>main\<close>.\<close>

definition exit_status :: "bool \<Rightarrow> nat" where
  "exit_status ok = (if ok then 0 else 1)"

section \<open>Strings\<close>

text \<open>\<open>s.split(c)\<close> for a one-character separator: never an empty list.\<close>

fun py_split :: "char \<Rightarrow> string \<Rightarrow> string list" where
  "py_split c [] = [[]]"
| "py_split c (x # xs) =
     (if x = c then [] # py_split c xs
      else case py_split c xs of [] \<Rightarrow> [[x]] | h # t \<Rightarrow> (x # h) # t)"

text \<open>
  \<open>s.replace(old, new)\<close>: the occurrences of \<open>old\<close> are found from the left and do not overlap;
  an empty \<open>old\<close> matches before every character and at the end.
\<close>

function py_replace :: "string \<Rightarrow> string \<Rightarrow> string \<Rightarrow> string" where
  "py_replace old new [] = (if old = [] then new else [])"
| "py_replace old new (x # xs) =
     (if old = [] then new @ x # py_replace old new xs
      else if prefix old (x # xs)
           then new @ py_replace old new (drop (length old) (x # xs))
           else x # py_replace old new xs)"
  by pat_completeness auto
termination
  by (relation "measure (\<lambda>(old, new, s). length s)") auto

text \<open>
  Lines 230 to 236 of \<open>api_call\<close>. The parameter \<open>uuid_ok\<close> says for which strings the library
  call \<open>uuid.UUID(segment)\<close> returns instead of raising. The loop runs over the segments of the
  key as it is before the loop, and each replacement acts on the whole key.
\<close>

definition endpoint_key :: "(string \<Rightarrow> bool) \<Rightarrow> string \<Rightarrow> string" where
  "endpoint_key uuid_ok ep =
     (let key0 = hd (py_split CHR ''?'' ep)
      in foldl (\<lambda>key segment. if uuid_ok segment then py_replace segment ''{id}'' key else key)
           key0 (py_split CHR ''/'' key0))"

section \<open>The world outside the load tester\<close>

text \<open>
  One request as the transport sees it: method, URL, the \<open>X-User-Id\<close> header and the
  \<open>content\<close> of the JSON body, if there is a body.
\<close>

record request =
  req_method :: string
  req_url :: string
  req_user_id :: string
  req_body :: "string option"

text \<open>
  What happens to one request: the seconds the call stays suspended on the semaphore, the
  seconds from the moment the permit is held until the response is there or the exception is
  caught, and the reply: a status with the decoded body, or the message of the exception
  (timeout, connection fault, unreadable body).
\<close>

record exchange =
  waited :: rat
  elapsed :: rat
  reply :: "string + nat \<times> json"

text \<open>
  Everything the source takes from outside, over a state \<open>'w\<close> of the outside world that each
  operation may change: the HTTP session, \<open>uuid.UUID\<close> (for which strings it returns),
  \<open>str\<close> of a cursor inside an f-string, \<open>uuid.uuid4\<close>, \<open>random.sample\<close>, \<open>random.choice\<close>,
  the health probe and \<open>time.perf_counter\<close>.
\<close>

record 'w env =
  transport :: "'w \<Rightarrow> request \<Rightarrow> exchange \<times> 'w"
  uuid_ok :: "string \<Rightarrow> bool"
  str_cursor :: "json \<Rightarrow> string"
  uuid4 :: "'w \<Rightarrow> string \<times> 'w"
  sample :: "'w \<Rightarrow> string list \<Rightarrow> nat \<Rightarrow> string list \<times> 'w"
  choice :: "'w \<Rightarrow> string list \<Rightarrow> string \<times> 'w"
  probe :: "'w \<Rightarrow> bool \<times> 'w"
  perf_counter :: "'w \<Rightarrow> rat \<times> 'w"

text \<open>The configuration file, with counts that are natural numbers; \<open>base_url\<close> is the host
  without trailing slashes.\<close>

record config =
  base_url :: string
  users_regular :: nat
  users_celebrities :: nat
  tweets_per_user :: nat
  timeline_reads_per_user :: nat
  follows_per_regular_user :: nat
  unfollows_per_user :: "nat option"
  pagination_page_size :: "nat option"
  limits :: thresholds

record 'w LoadTester =
  world :: 'w
  metrics :: MetricsCollector
  regular_users :: "string list"
  celebrities :: "string list"
  celebrity_followers :: "string list"
  all_users :: "string list"
  follow_graph :: "string \<Rightarrow> string list option"

definition LoadTester_new :: "'w \<Rightarrow> 'w LoadTester" where
  "LoadTester_new w =
     \<lparr>world = w, metrics = MetricsCollector_new, regular_users = [], celebrities = [],
      celebrity_followers = [], all_users = [], follow_graph = Map.empty\<rparr>"

text \<open>The dictionary \<open>api_call\<close> returns; \<open>data\<close> and \<open>error\<close> are each present on one path only.\<close>

record api_result =
  res_success :: bool
  res_status :: nat
  res_data :: "json option"
  res_error :: "string option"

text \<open>\<open>result.get("data")\<close>: \<open>None\<close> when the key is missing.\<close>

definition get_data :: "api_result \<Rightarrow> json" where
  "get_data r = (case res_data r of None \<Rightarrow> JNull | Some d \<Rightarrow> d)"

text \<open>\<open>data.get(k)\<close> on a value that may not be a dictionary.\<close>

fun json_get :: "json \<Rightarrow> string \<Rightarrow> error + json" where
  "json_get (JObj kvs) k = Inr (case map_of kvs k of None \<Rightarrow> JNull | Some v \<Rightarrow> v)"
| "json_get _ k = Inl (AttributeError ''get'')"

section \<open>api_call and the operations\<close>

text \<open>
  \<open>start\<close> is read before the semaphore is entered; the second reading is taken when the
  response is there, or in the handler, so it is \<open>start + waited + elapsed\<close>. The handler
  \<open>except Exception\<close> turns every exception of the request into a recorded failure.
\<close>

definition api_call ::
  "'w env \<Rightarrow> config \<Rightarrow> string \<Rightarrow> string \<Rightarrow> string \<Rightarrow> string option \<Rightarrow> nat list option \<Rightarrow>
   'w LoadTester \<Rightarrow> api_result \<times> 'w LoadTester" where
  "api_call E cfg meth ep user_id body expected_status t =
     (let expected = (case expected_status of None \<Rightarrow> [200] | Some l \<Rightarrow> l);
          url = base_url cfg @ ep;
          key = endpoint_key (uuid_ok E) ep;
          (start, w1) = perf_counter E (world t);
          (x, w2) = transport E w1
             \<lparr>req_method = meth, req_url = url, req_user_id = user_id, req_body = body\<rparr>;
          lat = ((start + waited x + elapsed x) - start) * 1000
      in case reply x of
           Inr (st, d) \<Rightarrow>
             let ok = (st \<in> set expected)
             in (\<lparr>res_success = ok, res_status = st, res_data = Some d, res_error = None\<rparr>,
                 t\<lparr>world := w2,
                   metrics := record_metric
                     \<lparr>endpoint = key, http_method = meth, status = st, latency_ms = lat,
                      rm_success = ok,
                      error = (if ok then None else Some (''HTTP '' @ str_nat st))\<rparr>
                     (metrics t)\<rparr>)
         | Inl e \<Rightarrow>
             (\<lparr>res_success = False, res_status = 0, res_data = None, res_error = Some e\<rparr>,
              t\<lparr>world := w2,
                metrics := record_metric
                  \<lparr>endpoint = key, http_method = meth, status = 0, latency_ms = lat,
                   rm_success = False, error = Some e\<rparr>
                  (metrics t)\<rparr>))"

definition create_tweet ::
  "'w env \<Rightarrow> config \<Rightarrow> string \<Rightarrow> string \<Rightarrow> 'w LoadTester \<Rightarrow> api_result \<times> 'w LoadTester" where
  "create_tweet E cfg user_id content t =
     api_call E cfg ''POST'' ''/api/v1/tweets'' user_id (Some content) (Some [201]) t"

definition follow_user ::
  "'w env \<Rightarrow> config \<Rightarrow> string \<Rightarrow> string \<Rightarrow> 'w LoadTester \<Rightarrow> api_result \<times> 'w LoadTester" where
  "follow_user E cfg follower_id followee_id t =
     api_call E cfg ''POST'' (''/api/v1/users/'' @ follower_id @ ''/follow/'' @ followee_id)
       follower_id None (Some [201, 409]) t"

definition unfollow_user ::
  "'w env \<Rightarrow> config \<Rightarrow> string \<Rightarrow> string \<Rightarrow> 'w LoadTester \<Rightarrow> api_result \<times> 'w LoadTester" where
  "unfollow_user E cfg follower_id followee_id t =
     api_call E cfg ''DELETE'' (''/api/v1/users/'' @ follower_id @ ''/follow/'' @ followee_id)
       follower_id None (Some [200, 204, 404]) t"

text \<open>The cursor is Python's \<open>None\<close> (\<open>JNull\<close>) or what the last page carried.\<close>

definition get_timeline ::
  "'w env \<Rightarrow> config \<Rightarrow> string \<Rightarrow> nat \<Rightarrow> json \<Rightarrow> 'w LoadTester \<Rightarrow> api_result \<times> 'w LoadTester" where
  "get_timeline E cfg user_id limit cursor t =
     (let url = ''/api/v1/users/'' @ user_id @ ''/timeline?limit='' @ str_nat limit;
          url = (if truthy cursor then url @ ''&cursor='' @ str_cursor E cursor else url)
      in api_call E cfg ''GET'' url user_id None (Some [200]) t)"

definition get_user_tweets ::
  "'w env \<Rightarrow> config \<Rightarrow> string \<Rightarrow> nat \<Rightarrow> json \<Rightarrow> 'w LoadTester \<Rightarrow> api_result \<times> 'w LoadTester" where
  "get_user_tweets E cfg user_id limit cursor t =
     (let url = ''/api/v1/users/'' @ user_id @ ''/tweets?limit='' @ str_nat limit;
          url = (if truthy cursor then url @ ''&cursor='' @ str_cursor E cursor else url)
      in api_call E cfg ''GET'' url user_id None (Some [200]) t)"

definition get_followers ::
  "'w env \<Rightarrow> config \<Rightarrow> string \<Rightarrow> nat \<Rightarrow> 'w LoadTester \<Rightarrow> api_result \<times> 'w LoadTester" where
  "get_followers E cfg user_id limit t =
     api_call E cfg ''GET'' (''/api/v1/users/'' @ user_id @ ''/followers?limit='' @ str_nat limit)
       user_id None (Some [200]) t"

definition get_following ::
  "'w env \<Rightarrow> config \<Rightarrow> string \<Rightarrow> nat \<Rightarrow> 'w LoadTester \<Rightarrow> api_result \<times> 'w LoadTester" where
  "get_following E cfg user_id limit t =
     api_call E cfg ''GET'' (''/api/v1/users/'' @ user_id @ ''/following?limit='' @ str_nat limit)
       user_id None (Some [200]) t"

section \<open>Pagination\<close>

text \<open>
  A computation of the scenario ends with a value, raises, or does not end: the \<open>while True\<close>
  loops of the pagination helpers have no bound of their own, so they run on fuel, one unit
  per request, and \<open>OutOfFuel\<close> stands for a loop that is still running. The two helpers are the
  same loop around \<open>get_timeline\<close> and around \<open>get_user_tweets\<close>; \<open>paginate_loop\<close> is that loop
  and returns the page count.
\<close>

datatype 'a outcome = Done 'a | Raised error | OutOfFuel

fun paginate_loop ::
  "(json \<Rightarrow> 'w LoadTester \<Rightarrow> api_result \<times> 'w LoadTester) \<Rightarrow> nat \<Rightarrow> nat \<Rightarrow> json \<Rightarrow>
   'w LoadTester \<Rightarrow> (nat \<times> 'w LoadTester) outcome" where
  "paginate_loop fetch 0 pages cursor t = OutOfFuel"
| "paginate_loop fetch (Suc fuel) pages cursor t =
     (let (result, t) = fetch cursor t;
          pages = pages + 1
      in if \<not> res_success result \<or> \<not> truthy (get_data result) then Done (pages, t)
         else case json_get (get_data result) ''nextCursor'' of
                Inl e \<Rightarrow> Raised e
              | Inr cursor \<Rightarrow>
                  if \<not> truthy cursor then Done (pages, t)
                  else paginate_loop fetch fuel pages cursor t)"

definition paginate_timeline ::
  "nat \<Rightarrow> 'w env \<Rightarrow> config \<Rightarrow> string \<Rightarrow> nat \<Rightarrow> 'w LoadTester \<Rightarrow> (nat \<times> 'w LoadTester) outcome" where
  "paginate_timeline fuel E cfg user_id limit t =
     paginate_loop (get_timeline E cfg user_id limit) fuel 0 JNull t"

definition paginate_tweets ::
  "nat \<Rightarrow> 'w env \<Rightarrow> config \<Rightarrow> string \<Rightarrow> nat \<Rightarrow> 'w LoadTester \<Rightarrow> (nat \<times> 'w LoadTester) outcome" where
  "paginate_tweets fuel E cfg user_id limit t =
     paginate_loop (get_user_tweets E cfg user_id limit) fuel 0 JNull t"

section \<open>The phases\<close>

fun and_then :: "'a outcome \<Rightarrow> ('a \<Rightarrow> 'b outcome) \<Rightarrow> 'b outcome" where
  "and_then (Done x) f = f x"
| "and_then (Raised e) f = Raised e"
| "and_then OutOfFuel f = OutOfFuel"

text \<open>
  \<open>await asyncio.gather(*tasks)\<close> is modelled by one of its schedules: the tasks run one after
  the other in the order of the list. An exception of a task leaves the gather, and with it
  the run.
\<close>

fun gather :: "('a \<Rightarrow> 's \<Rightarrow> 's outcome) \<Rightarrow> 'a list \<Rightarrow> 's \<Rightarrow> 's outcome" where
  "gather f [] s = Done s"
| "gather f (x # xs) s = and_then (f x s) (gather f xs)"

text \<open>\<open>uuid.uuid4().hex[:8]\<close>, from the string form of the identifier.\<close>

definition hex8 :: "string \<Rightarrow> string" where
  "hex8 u = take 8 (filter (\<lambda>c. c \<noteq> CHR ''-'') u)"

text \<open>The star of the celebrity greetings, as the four bytes of its UTF-8 encoding.\<close>

definition star :: string where
  "star = [CHR 0xF0, CHR 0x9F, CHR 0x8C, CHR 0x9F]"

definition phase_create_users :: "'w env \<Rightarrow> config \<Rightarrow> 'w LoadTester \<Rightarrow> 'w LoadTester" where
  "phase_create_users E cfg t =
     (let t = fold (\<lambda>i t.
                 let (user_id, w) = uuid4 E (world t);
                     t = t\<lparr>world := w, regular_users := regular_users t @ [user_id]\<rparr>
                 in snd (create_tweet E cfg user_id
                           (''Hello! I'' @ [CHR 0x27] @ ''m regular user '' @ str_nat (i + 1)) t))
                [0..<users_regular cfg] t;
          t = fold (\<lambda>i t.
                 let (user_id, w) = uuid4 E (world t);
                     t = t\<lparr>world := w, celebrities := celebrities t @ [user_id]\<rparr>
                 in snd (create_tweet E cfg user_id
                           (''Hello! I'' @ [CHR 0x27] @ ''m celebrity '' @ str_nat (i + 1) @ '' '' @ star)
                           t))
                [0..<users_celebrities cfg] t
      in t\<lparr>all_users := regular_users t @ celebrities t\<rparr>)"

fun draw_uuids :: "'w env \<Rightarrow> nat \<Rightarrow> 'w \<Rightarrow> string list \<times> 'w" where
  "draw_uuids E 0 w = ([], w)"
| "draw_uuids E (Suc n) w =
     (let (u, w1) = uuid4 E w; (us, w2) = draw_uuids E n w1 in (u # us, w2))"

text \<open>The follower identifiers are all drawn while the task list is built, before any follow.\<close>

definition phase_build_celebrity_followers ::
  "'w env \<Rightarrow> config \<Rightarrow> 'w LoadTester \<Rightarrow> 'w LoadTester" where
  "phase_build_celebrity_followers E cfg t =
     (let threshold = 5000;
          (tasks, t) =
            fold (\<lambda>celeb (tasks, t).
                    let (ids, w) = draw_uuids E threshold (world t)
                    in (tasks @ map (\<lambda>follower_id. (follower_id, celeb)) ids,
                        t\<lparr>world := w, celebrity_followers := celebrity_followers t @ ids\<rparr>))
              (celebrities t) ([], t)
      in fold (\<lambda>(follower_id, celeb) t. snd (follow_user E cfg follower_id celeb t)) tasks t)"

definition phase_build_social_graph ::
  "'w env \<Rightarrow> config \<Rightarrow> 'w LoadTester \<Rightarrow> 'w LoadTester" where
  "phase_build_social_graph E cfg t =
     (let (tasks, t) =
            fold (\<lambda>user (tasks, t).
                    let others = filter (\<lambda>u. u \<noteq> user) (regular_users t);
                        (to_follow, w) = sample E (world t) others
                           (min (follows_per_regular_user cfg) (length others));
                        to_follow = to_follow @ celebrities t
                    in (tasks @ map (\<lambda>target. (user, target)) to_follow,
                        t\<lparr>world := w, follow_graph := (follow_graph t)(user \<mapsto> to_follow)\<rparr>))
              (regular_users t) ([], t)
      in fold (\<lambda>(user, target) t. snd (follow_user E cfg user target t)) tasks t)"

definition phase_create_tweets :: "'w env \<Rightarrow> config \<Rightarrow> 'w LoadTester \<Rightarrow> 'w LoadTester" where
  "phase_create_tweets E cfg t =
     (let (tasks, t) =
            fold (\<lambda>(round_num, user) (tasks, t).
                    let user_type = (if user \<in> set (celebrities t)
                                     then ''celebrity '' @ star else ''user'');
                        (u, w) = uuid4 E (world t);
                        content = ''Tweet '' @ str_nat (round_num + 1) @ '' from '' @ user_type
                                    @ '' - '' @ hex8 u
                    in (tasks @ [(user, content)], t\<lparr>world := w\<rparr>))
              (List.product [0..<tweets_per_user cfg] (all_users t)) ([], t)
      in fold (\<lambda>(user, content) t. snd (create_tweet E cfg user content t)) tasks t)"

definition page_size_of :: "config \<Rightarrow> nat" where
  "page_size_of cfg = (case pagination_page_size cfg of None \<Rightarrow> 10 | Some n \<Rightarrow> n)"

definition phase_read_timelines ::
  "nat \<Rightarrow> 'w env \<Rightarrow> config \<Rightarrow> 'w LoadTester \<Rightarrow> 'w LoadTester outcome" where
  "phase_read_timelines fuel E cfg t =
     gather (\<lambda>user t. map_outcome snd (paginate_timeline fuel E cfg user (page_size_of cfg) t))
       (concat (replicate (timeline_reads_per_user cfg) (regular_users t))) t"

definition check_and_report ::
  "nat \<Rightarrow> 'w env \<Rightarrow> config \<Rightarrow> string \<Rightarrow> 'w LoadTester \<Rightarrow> 'w LoadTester outcome" where
  "check_and_report fuel E cfg user t =
     and_then (paginate_tweets fuel E cfg user (page_size_of cfg) t)
       (\<lambda>(pages, t).
          let t = snd (get_followers E cfg user 20 t);
              t = snd (get_following E cfg user 20 t)
          in Done t)"

definition phase_check_profiles ::
  "nat \<Rightarrow> 'w env \<Rightarrow> config \<Rightarrow> 'w LoadTester \<Rightarrow> 'w LoadTester outcome" where
  "phase_check_profiles fuel E cfg t = gather (check_and_report fuel E cfg) (all_users t) t"

definition phase_unfollow_some :: "'w env \<Rightarrow> config \<Rightarrow> 'w LoadTester \<Rightarrow> 'w LoadTester" where
  "phase_unfollow_some E cfg t =
     (let unfollows_per = (case unfollows_per_user cfg of None \<Rightarrow> 1 | Some n \<Rightarrow> n)
      in fold (\<lambda>user t.
                 let following = (case follow_graph t user of None \<Rightarrow> [] | Some l \<Rightarrow> l);
                     regular_following = filter (\<lambda>f. f \<notin> set (celebrities t)) following
                 in fold (\<lambda>i t. snd (unfollow_user E cfg user (regular_following ! i) t))
                      [0..<min unfollows_per (length regular_following)] t)
           (regular_users t) t)"

definition mixed_user_activity ::
  "nat \<Rightarrow> 'w env \<Rightarrow> config \<Rightarrow> string \<Rightarrow> nat \<Rightarrow> 'w LoadTester \<Rightarrow> 'w LoadTester outcome" where
  "mixed_user_activity fuel E cfg user round_num t =
     (let (u, w) = uuid4 E (world t);
          content = ''Live tweet '' @ str_nat (round_num + 1) @ '' - '' @ hex8 u;
          t = snd (create_tweet E cfg user content (t\<lparr>world := w\<rparr>));
          not_following =
            filter (\<lambda>u. u \<noteq> user \<and>
                         u \<notin> set (case follow_graph t user of None \<Rightarrow> [] | Some l \<Rightarrow> l))
              (regular_users t);
          t = (if not_following \<noteq> []
               then let (target, w) = choice E (world t) not_following
                    in snd (follow_user E cfg user target (t\<lparr>world := w\<rparr>))
               else t)
      in map_outcome snd (paginate_timeline fuel E cfg user (page_size_of cfg) t))"

definition phase_mixed_activity ::
  "nat \<Rightarrow> 'w env \<Rightarrow> config \<Rightarrow> 'w LoadTester \<Rightarrow> 'w LoadTester outcome" where
  "phase_mixed_activity fuel E cfg t =
     gather (\<lambda>(round_num, user). mixed_user_activity fuel E cfg user round_num)
       (List.product [0..<2] (regular_users t)) t"

section \<open>The run\<close>

text \<open>
  \<open>run\<close> after the health check, in the two parts its output names: the setup phase
  (phases 1 to 3) and the runtime phase (phases 4 to 8). Banner, progress bars and the settle
  delay leave no trace in the state.
\<close>

definition run_setup :: "'w env \<Rightarrow> config \<Rightarrow> 'w LoadTester \<Rightarrow> 'w LoadTester" where
  "run_setup E cfg t =
     (let t = t\<lparr>metrics := set_phase ''setup'' (metrics t)\<rparr>;
          t = phase_create_users E cfg t;
          t = phase_build_celebrity_followers E cfg t
      in phase_build_social_graph E cfg t)"

definition run_runtime :: "nat \<Rightarrow> 'w env \<Rightarrow> config \<Rightarrow> 'w LoadTester \<Rightarrow> 'w LoadTester outcome" where
  "run_runtime fuel E cfg t =
     (let t = t\<lparr>metrics := set_phase ''runtime'' (metrics t)\<rparr>;
          t = phase_create_tweets E cfg t
      in and_then (phase_read_timelines fuel E cfg t) (\<lambda>t.
         and_then (phase_check_profiles fuel E cfg t) (\<lambda>t.
         phase_mixed_activity fuel E cfg (phase_unfollow_some E cfg t))))"

definition run ::
  "nat \<Rightarrow> bool \<Rightarrow> 'w env \<Rightarrow> config \<Rightarrow> 'w LoadTester \<Rightarrow> (bool \<times> 'w LoadTester) outcome" where
  "run fuel rich E cfg t =
     (let (healthy, w) = probe E (world t);
          t = t\<lparr>world := w\<rparr>
      in if \<not> healthy then Done (False, t)
         else
           let (now, w) = perf_counter E (world t);
               t = t\<lparr>world := w, metrics := (metrics t)\<lparr>start_time := now\<rparr>\<rparr>
           in and_then (run_runtime fuel E cfg (run_setup E cfg t)) (\<lambda>t.
                let (now, w) = perf_counter E (world t);
                    t = t\<lparr>world := w, metrics := (metrics t)\<lparr>end_time := now\<rparr>\<rparr>
                in case print_results rich (limits cfg) (metrics t) of
                     Inl e \<Rightarrow> Raised e
                   | Inr v \<Rightarrow> Done (passed v, t)))"

section \<open>The wording of the specification\<close>

text \<open>
  The quantile convention in the words of the specification: over \<open>n\<close> samples, the sample at
  sorted index \<open>floor (n * q)\<close>, clamped to \<open>[0, n - 1]\<close>, and zero over no samples.
\<close>

definition quantile_spec :: "rat \<Rightarrow> rat list \<Rightarrow> rat" where
  "quantile_spec q xs =
     (if xs = [] then 0
      else sort xs ! min (nat \<lfloor>of_nat (length xs) * q\<rfloor>) (length xs - 1))"

text \<open>The error rate of a phase, in percent: the failed share of its requests.\<close>

definition error_rate_percent :: "phase_stats \<Rightarrow> rat" where
  "error_rate_percent st = of_nat (ps_failed st) / of_nat (ps_total st) * 100"

section \<open>Sample outcomes\<close>

text \<open>An outcome of \<open>POST /api/v1/tweets\<close> with the given success flag and latency.\<close>

definition tweet_outcome :: "bool \<Rightarrow> rat \<Rightarrow> RequestMetrics" where
  "tweet_outcome ok ms =
     \<lparr>endpoint = ''/api/v1/tweets'', http_method = ''POST'',
      status = (if ok then 201 else 500), latency_ms = ms, rm_success = ok,
      error = (if ok then None else Some ''HTTP 500'')\<rparr>"

text \<open>A fresh collector after a sequence of calls.\<close>

definition replay :: "collector_call list \<Rightarrow> MetricsCollector" where
  "replay calls = foldl collector_step MetricsCollector_new calls"

section \<open>Statements about one call\<close>

text \<open>
  The exchange that the world holds for a call of \<open>api_call\<close> made in state \<open>t\<close>: the answer of
  the transport to the request that \<open>api_call\<close> builds, after the clock has been read.
\<close>

definition answer ::
  "'w env \<Rightarrow> config \<Rightarrow> string \<Rightarrow> string \<Rightarrow> string \<Rightarrow> string option \<Rightarrow> 'w LoadTester \<Rightarrow> exchange" where
  "answer E cfg meth ep user_id body t =
     fst (transport E (snd (perf_counter E (world t)))
            \<lparr>req_method = meth, req_url = base_url cfg @ ep, req_user_id = user_id,
             req_body = body\<rparr>)"

section \<open>A scripted world\<close>

text \<open>
  A world for concrete runs: its state is the list of exchanges still to hand out, one per
  request, and a refused connection once the list is used up. Identifiers count as UUIDs in
  their canonical form of 8-4-4-4-12 hexadecimal digits.
\<close>

definition is_hex :: "char \<Rightarrow> bool" where
  "is_hex c = (c \<in> set ''0123456789abcdefABCDEF'')"

definition canonical_uuid :: "string \<Rightarrow> bool" where
  "canonical_uuid s =
     (map (\<lambda>c. if is_hex c then CHR ''0'' else c) s = ''00000000-0000-0000-0000-000000000000'')"

definition scripted_env :: "(exchange list) env" where
  "scripted_env =
     \<lparr>transport = (\<lambda>w req. case w of
                      [] \<Rightarrow> (\<lparr>waited = 0, elapsed = 0, reply = Inl ''connection refused''\<rparr>, [])
                    | x # xs \<Rightarrow> (x, xs)),
      uuid_ok = canonical_uuid,
      str_cursor = (\<lambda>j. case j of JStr s \<Rightarrow> s | _ \<Rightarrow> []),
      uuid4 = (\<lambda>w. (''3f2b8c1e-5d47-4a90-8e6b-0c1d2e3f4a5b'', w)),
      sample = (\<lambda>w xs n. (take n xs, w)),
      choice = (\<lambda>w xs. (case xs of [] \<Rightarrow> [] | x # _ \<Rightarrow> x, w)),
      probe = (\<lambda>w. (True, w)),
      perf_counter = (\<lambda>w. (0, w))\<rparr>"

definition local_config :: config where
  "local_config =
     \<lparr>base_url = ''http://localhost:8080'', users_regular = 10, users_celebrities = 0,
      tweets_per_user = 1, timeline_reads_per_user = 0, follows_per_regular_user = 0,
      unfollows_per_user = None, pagination_page_size = None,
      limits = \<lparr>max_error_rate_percent = 5, max_p95_latency_ms = 200\<rparr>\<rparr>"

section \<open>A world that always answers with success\<close>

text \<open>The \<open>n\<close>-th identifier of the fake world, in the canonical form of a UUID.\<close>

definition uuid_of_nat :: "nat \<Rightarrow> string" where
  "uuid_of_nat n =
     ''00000000-0000-4000-8000-'' @ replicate (12 - length (str_nat n)) CHR ''0'' @ str_nat n"

text \<open>
  A fake transport that always returns success: 201 for a \<open>POST\<close> and 200 otherwise, with a
  body that has no \<open>nextCursor\<close>. Its state counts the identifiers handed out; \<open>sample\<close> takes
  the first elements and \<open>choice\<close> the first element.
\<close>

definition fake_env :: "nat env" where
  "fake_env =
     \<lparr>transport = (\<lambda>w req.
        (\<lparr>waited = 0, elapsed = 1 / 100,
          reply = Inr (if req_method req = ''POST'' then 201 else 200,
                       JObj [(''data'', JArr [])])\<rparr>, w)),
      uuid_ok = canonical_uuid,
      str_cursor = (\<lambda>j. case j of JStr s \<Rightarrow> s | _ \<Rightarrow> []),
      uuid4 = (\<lambda>w. (uuid_of_nat w, Suc w)),
      sample = (\<lambda>w xs n. (take n xs, w)),
      choice = (\<lambda>w xs. (case xs of [] \<Rightarrow> [] | x # _ \<Rightarrow> x, w)),
      probe = (\<lambda>w. (True, w)),
      perf_counter = (\<lambda>w. (0, w))\<rparr>"

section \<open>Properties of a transport\<close>

text \<open>
  A transport that always returns a success status: every request is answered with a status
  that each operation using the method of the request accepts (201 for \<open>POST\<close>, 200 for
  \<open>GET\<close>, and 200, 204 or 404 for \<open>DELETE\<close>).
\<close>

definition always_success :: "'w env \<Rightarrow> bool" where
  "always_success E \<longleftrightarrow>
     (\<forall>w req. \<exists>st d. reply (fst (transport E w req)) = Inr (st, d)
        \<and> (req_method req = ''POST'' \<longrightarrow> st = 201)
        \<and> (req_method req = ''GET'' \<longrightarrow> st = 200)
        \<and> (req_method req = ''DELETE'' \<longrightarrow> st = 200 \<or> st = 204 \<or> st = 404))"

text \<open>
  A transport on which every pagination ends with its first page without raising: each body
  it returns is empty (falsy), or is a JSON object whose \<open>nextCursor\<close> is missing or empty.
  A body that is not an object, such as plain text or an array, is excluded: on it the
  pagination helpers raise.
\<close>

definition single_page :: "'w env \<Rightarrow> bool" where
  "single_page E \<longleftrightarrow>
     (\<forall>w req. case reply (fst (transport E w req)) of
        Inl e \<Rightarrow> True
      | Inr (st, d) \<Rightarrow> \<not> truthy d \<or> (\<exists>c. json_get d ''nextCursor'' = Inr c \<and> \<not> truthy c))"

text \<open>
  The acceptable-status sets, by method, that a transport which always returns success
  satisfies.
\<close>

definition accepts :: "string \<Rightarrow> nat list \<Rightarrow> bool" where
  "accepts meth expected \<longleftrightarrow>
     (meth = ''POST'' \<and> 201 \<in> set expected) \<or> (meth = ''GET'' \<and> 200 \<in> set expected)
     \<or> (meth = ''DELETE'' \<and> 200 \<in> set expected \<and> 204 \<in> set expected \<and> 404 \<in> set expected)"

section \<open>What a stretch of the scenario records\<close>

text \<open>
  Notions for the proofs about the scenario. \<open>recorded m ms m'\<close>: the collector \<open>m'\<close> is \<open>m\<close>
  after the outcomes \<open>ms\<close> were recorded, in the list of the current phase. \<open>did E k m m'\<close>:
  exactly \<open>k\<close> outcomes were recorded, all of them successes if the transport always returns
  success. \<open>step\<close> adds that the user lists and the follow graph are unchanged, \<open>step_ge\<close>
  that at least so many outcomes were recorded, \<open>setup_rel\<close> and \<open>created\<close> describe the
  setup phases, which change the follow graph and the user lists.
\<close>

definition recorded :: "MetricsCollector \<Rightarrow> RequestMetrics list \<Rightarrow> MetricsCollector \<Rightarrow> bool" where
  "recorded m ms m' \<longleftrightarrow>
     phase m' = phase m
     \<and> setup_requests m' = setup_requests m @ (if phase m = ''setup'' then ms else [])
     \<and> runtime_requests m' = runtime_requests m @ (if phase m = ''setup'' then [] else ms)"

definition did :: "'w env \<Rightarrow> nat \<Rightarrow> MetricsCollector \<Rightarrow> MetricsCollector \<Rightarrow> bool" where
  "did E k m m' \<longleftrightarrow>
     (\<exists>ms. recorded m ms m' \<and> length ms = k \<and> (always_success E \<longrightarrow> list_all rm_success ms))"

definition same_users :: "'w LoadTester \<Rightarrow> 'w LoadTester \<Rightarrow> bool" where
  "same_users t t' \<longleftrightarrow>
     regular_users t' = regular_users t \<and> celebrities t' = celebrities t
     \<and> all_users t' = all_users t \<and> follow_graph t' = follow_graph t"

definition step :: "'w env \<Rightarrow> nat \<Rightarrow> 'w LoadTester \<Rightarrow> 'w LoadTester \<Rightarrow> bool" where
  "step E k t t' \<longleftrightarrow> same_users t t' \<and> did E k (metrics t) (metrics t')"

definition step_ge :: "'w env \<Rightarrow> nat \<Rightarrow> 'w LoadTester \<Rightarrow> 'w LoadTester \<Rightarrow> bool" where
  "step_ge E c t t' \<longleftrightarrow> (\<exists>k. c \<le> k \<and> step E k t t')"

definition setup_rel :: "'w env \<Rightarrow> 'w LoadTester \<Rightarrow> 'w LoadTester \<Rightarrow> bool" where
  "setup_rel E t t' \<longleftrightarrow>
     regular_users t' = regular_users t \<and> celebrities t' = celebrities t
     \<and> all_users t' = all_users t \<and> (\<exists>k. did E k (metrics t) (metrics t'))"

definition created :: "'w env \<Rightarrow> nat \<Rightarrow> nat \<Rightarrow> 'w LoadTester \<Rightarrow> 'w LoadTester \<Rightarrow> bool" where
  "created E kr kc t t' \<longleftrightarrow>
     length (regular_users t') = length (regular_users t) + kr
     \<and> length (celebrities t') = length (celebrities t) + kc
     \<and> did E (kr + kc) (metrics t) (metrics t')"

section \<open>The number of runtime outcomes of a run\<close>

text \<open>How many outcomes the runtime phase of a finished run holds.\<close>

definition runtime_outcomes :: "(bool \<times> 'w LoadTester) outcome \<Rightarrow> nat outcome" where
  "runtime_outcomes r = map_outcome (\<lambda>(ok, t). length (runtime_requests (metrics t))) r"

section \<open>Notions for the path normalisation\<close>

text \<open>\<open>c.join(segments)\<close>, the inverse of \<open>py_split\<close>.\<close>

fun py_join :: "char \<Rightarrow> string list \<Rightarrow> string" where
  "py_join c [] = []"
| "py_join c [s] = s"
| "py_join c (s # t # ts) = s @ c # py_join c (t # ts)"

text \<open>
  What the proofs use of the library call \<open>uuid.UUID(s)\<close>. It removes \<open>urn:\<close> and \<open>uuid:\<close>,
  strips braces from both ends and removes hyphens; what is left must be 32 characters that
  \<open>int(_, 16)\<close> reads. So a string it accepts has at least 32 characters, none of them a slash
  or a question mark, and does not contain the placeholder \<open>{id}\<close>, whose \<open>i\<close> would be left
  among the 32 characters.
\<close>

definition uuid_library :: "(string \<Rightarrow> bool) \<Rightarrow> bool" where
  "uuid_library ok \<longleftrightarrow>
     (\<forall>s. ok s \<longrightarrow> 32 \<le> length s \<and> CHR ''/'' \<notin> set s \<and> CHR ''?'' \<notin> set s
                  \<and> \<not> sublist ''{id}'' s)"

text \<open>One round of the loop of lines 231 to 236, on a key or on one of its segments.\<close>

definition replace_ids :: "(string \<Rightarrow> bool) \<Rightarrow> string \<Rightarrow> string \<Rightarrow> string" where
  "replace_ids ok v segment = (if ok segment then py_replace segment ''{id}'' v else v)"

section \<open>Counters of a bucket\<close>

lemma record_stats_total: "total (record_stats metric s) = total s + 1"
  by (simp add: record_stats_def Let_def)

lemma record_stats_success:
  "success (record_stats metric s) = (if rm_success metric then success s + 1 else success s)"
  by (simp add: record_stats_def Let_def)

lemma record_stats_failed:
  "failed (record_stats metric s) = (if rm_success metric then failed s else failed s + 1)"
  by (simp add: record_stats_def Let_def)

lemma by_endpoint_record:
  "by_endpoint (record_metric metric m) k =
     (if k = bucket_key metric then record_stats metric (by_endpoint m k) else by_endpoint m k)"
  by (simp add: record_metric_def Let_def)

lemma by_endpoint_set_phase: "by_endpoint (set_phase p m) k = by_endpoint m k"
  by (simp add: set_phase_def)

lemma balanced_step:
  assumes "\<forall>k. total (by_endpoint m k) = success (by_endpoint m k) + failed (by_endpoint m k)"
  shows "total (by_endpoint (collector_step m c) k)
         = success (by_endpoint (collector_step m c) k) + failed (by_endpoint (collector_step m c) k)"
  using assms
  by (cases c)
     (simp_all add: by_endpoint_record by_endpoint_set_phase record_stats_total
        record_stats_success record_stats_failed)

lemma balanced_foldl:
  assumes "\<forall>k. total (by_endpoint m k) = success (by_endpoint m k) + failed (by_endpoint m k)"
  shows "total (by_endpoint (foldl collector_step m calls) k)
         = success (by_endpoint (foldl collector_step m calls) k)
           + failed (by_endpoint (foldl collector_step m calls) k)"
  using assms
proof (induction calls arbitrary: m k)
  case Nil
  then show ?case by simp
next
  case (Cons c calls)
  have "\<forall>k. total (by_endpoint (collector_step m c) k)
         = success (by_endpoint (collector_step m c) k) + failed (by_endpoint (collector_step m c) k)"
    using balanced_step [OF Cons.prems] by blast
  from Cons.IH [OF this] show ?case by simp
qed

lemma balanced_new:
  "total (by_endpoint MetricsCollector_new k)
   = success (by_endpoint MetricsCollector_new k) + failed (by_endpoint MetricsCollector_new k)"
  by (simp add: MetricsCollector_new_def EndpointStats_new_def)

text \<open>
  Claim C8. Whatever sequence of \<open>set_phase\<close> and \<open>record\<close> calls a fresh collector receives,
  every bucket ends with \<open>total = success + failed\<close>; and one \<open>record\<close> call, in any collector,
  adds exactly 1 to \<open>total\<close> of the bucket of the recorded outcome, exactly 1 to \<open>success\<close> and
  nothing to \<open>failed\<close> when the outcome is a success, exactly 1 to \<open>failed\<close> and nothing to
  \<open>success\<close> when it is not, and leaves every other bucket as it was.
\<close>

theorem record_keeps_total_balanced:
  "total (by_endpoint (foldl collector_step MetricsCollector_new calls) k)
     = success (by_endpoint (foldl collector_step MetricsCollector_new calls) k)
       + failed (by_endpoint (foldl collector_step MetricsCollector_new calls) k)
   \<and> total (by_endpoint (record_metric metric m) (bucket_key metric))
       = total (by_endpoint m (bucket_key metric)) + 1
   \<and> success (by_endpoint (record_metric metric m) (bucket_key metric))
       = success (by_endpoint m (bucket_key metric)) + (if rm_success metric then 1 else 0)
   \<and> failed (by_endpoint (record_metric metric m) (bucket_key metric))
       = failed (by_endpoint m (bucket_key metric)) + (if rm_success metric then 0 else 1)
   \<and> (k' \<noteq> bucket_key metric \<longrightarrow> by_endpoint (record_metric metric m) k' = by_endpoint m k')"
  using balanced_foldl [of MetricsCollector_new calls k]
  by (simp add: balanced_new by_endpoint_record record_stats_total record_stats_success
        record_stats_failed)

theorem record_keeps_total_balanced_witness:
  "''GET /b'' \<noteq> bucket_key \<lparr>endpoint = ''/a'', http_method = ''GET'', status = 500, latency_ms = 12,
                               rm_success = False, error = Some ''HTTP 500''\<rparr>
   \<and> by_endpoint
        (record_metric \<lparr>endpoint = ''/a'', http_method = ''GET'', status = 500, latency_ms = 12,
                        rm_success = False, error = Some ''HTTP 500''\<rparr> MetricsCollector_new)
        ''GET /b''
       = by_endpoint MetricsCollector_new ''GET /b''
   \<and> failed (by_endpoint
        (record_metric \<lparr>endpoint = ''/a'', http_method = ''GET'', status = 500, latency_ms = 12,
                        rm_success = False, error = Some ''HTTP 500''\<rparr> MetricsCollector_new)
        ''GET /a'') = 1"
  using record_keeps_total_balanced
    [of "[]" "''GET /a''"
        "\<lparr>endpoint = ''/a'', http_method = ''GET'', status = 500, latency_ms = 12,
          rm_success = False, error = Some ''HTTP 500''\<rparr>"
        MetricsCollector_new "''GET /b''"]
  by (simp add: bucket_key_def MetricsCollector_new_def EndpointStats_new_def)

section \<open>Quantiles\<close>

lemma floor_percent:
  "nat \<lfloor>(of_nat n :: rat) * (of_nat p / 100)\<rfloor> = n * p div 100"
proof -
  have "(of_nat n :: rat) * (of_nat p / 100) = of_nat (n * p) / of_nat 100"
    by simp
  then have "\<lfloor>(of_nat n :: rat) * (of_nat p / 100)\<rfloor> = int (n * p div 100)"
    by (simp only: floor_divide_of_nat_eq)
  then show ?thesis by simp
qed

lemma floor_half: "nat \<lfloor>(of_nat n :: rat) * (1 / 2)\<rfloor> = n div 2"
proof -
  have "(of_nat n :: rat) * (1 / 2) = of_nat n / of_nat 2" by simp
  then have "\<lfloor>(of_nat n :: rat) * (1 / 2)\<rfloor> = int (n div 2)"
    by (simp only: floor_divide_of_nat_eq)
  then show ?thesis by simp
qed

lemma quantile_spec_95:
  "quantile_spec (95 / 100) xs
   = (if xs = [] then 0 else sort xs ! min (length xs * 95 div 100) (length xs - 1))"
  using floor_percent [of "length xs" 95] by (simp add: quantile_spec_def)

lemma quantile_spec_99:
  "quantile_spec (99 / 100) xs
   = (if xs = [] then 0 else sort xs ! min (length xs * 99 div 100) (length xs - 1))"
  using floor_percent [of "length xs" 99] by (simp add: quantile_spec_def)

lemma quantile_spec_50:
  "quantile_spec (1 / 2) xs = (if xs = [] then 0 else sort xs ! (length xs div 2))"
proof -
  have "xs \<noteq> [] \<Longrightarrow> min (length xs div 2) (length xs - 1) = length xs div 2"
    by (cases xs) auto
  then show ?thesis
    using floor_half [of "length xs"] by (simp add: quantile_spec_def)
qed

lemma p95_spec: "p95 s = quantile_spec (95 / 100) (latencies s)"
  by (simp only: quantile_spec_95 p95_def Let_def length_sort)

lemma p99_spec: "p99 s = quantile_spec (99 / 100) (latencies s)"
  by (simp only: quantile_spec_99 p99_def Let_def length_sort)

lemma p50_cases:
  "p50 s = (if latencies s = [] then 0
            else if odd (length (latencies s)) then quantile_spec (1 / 2) (latencies s)
            else (sort (latencies s) ! (length (latencies s) div 2 - 1)
                  + quantile_spec (1 / 2) (latencies s)) / 2)"
  by (simp add: p50_def median_def Let_def quantile_spec_50 odd_iff_mod_2_eq_one)

lemma phase_indices:
  "0 < n \<Longrightarrow> n div 2 < n \<and> n * 95 div 100 < n \<and> n * 99 div 100 < (n::nat)"
  by arith

lemma get_phase_stats_nonempty:
  assumes "reqs = (if ph = ''setup'' then setup_requests m else runtime_requests m)"
    and "reqs \<noteq> []"
  shows "get_phase_stats m ph =
     Inr \<lparr>ps_total = length reqs, ps_success = length (filter rm_success reqs),
          ps_failed = length reqs - length (filter rm_success reqs),
          ps_success_rate = Some (of_nat (length (filter rm_success reqs)) / of_nat (length reqs) * 100),
          ps_p50 = sort (map latency_ms reqs) ! (length reqs div 2),
          ps_p95 = sort (map latency_ms reqs) ! (length reqs * 95 div 100),
          ps_p99 = sort (map latency_ms reqs) ! (length reqs * 99 div 100)\<rparr>"
proof -
  have "0 < length reqs" using assms(2) by simp
  from phase_indices [OF this] show ?thesis
    using assms by (simp add: get_phase_stats_def Let_def item_def)
qed

lemma get_phase_stats_empty:
  assumes "(if ph = ''setup'' then setup_requests m else runtime_requests m) = []"
  shows "get_phase_stats m ph =
     Inr \<lparr>ps_total = 0, ps_success = 0, ps_failed = 0, ps_success_rate = None,
          ps_p50 = 0, ps_p95 = 0, ps_p99 = 0\<rparr>"
  using assms by (simp add: get_phase_stats_def Let_def)

lemma phase_quantiles:
  assumes "lats = map latency_ms (if ph = ''setup'' then setup_requests m else runtime_requests m)"
  shows "\<exists>st. get_phase_stats m ph = Inr st
             \<and> ps_p50 st = quantile_spec (1 / 2) lats
             \<and> ps_p95 st = quantile_spec (95 / 100) lats
             \<and> ps_p99 st = quantile_spec (99 / 100) lats"
proof (cases "lats = []")
  case True
  then have "(if ph = ''setup'' then setup_requests m else runtime_requests m) = []"
    using assms by simp
  from get_phase_stats_empty [OF this] True show ?thesis
    by (simp add: quantile_spec_def)
next
  case False
  define reqs where "reqs = (if ph = ''setup'' then setup_requests m else runtime_requests m)"
  have ne: "reqs \<noteq> []" using False assms reqs_def by auto
  have lats: "lats = map latency_ms reqs" using assms reqs_def by simp
  have len: "length lats = length reqs" using lats by simp
  have "0 < length reqs" using ne by simp
  from phase_indices [OF this]
  have m95: "min (length reqs * 95 div 100) (length reqs - 1) = length reqs * 95 div 100"
    and m99: "min (length reqs * 99 div 100) (length reqs - 1) = length reqs * 99 div 100"
    by auto
  have q50: "quantile_spec (1 / 2) lats = sort lats ! (length reqs div 2)"
    by (simp only: quantile_spec_50 False if_False len)
  have q95: "quantile_spec (95 / 100) lats = sort lats ! (length reqs * 95 div 100)"
    by (simp only: quantile_spec_95 False if_False len m95)
  have q99: "quantile_spec (99 / 100) lats = sort lats ! (length reqs * 99 div 100)"
    by (simp only: quantile_spec_99 False if_False len m99)
  show ?thesis
    by (simp only: get_phase_stats_nonempty [OF reqs_def ne] q50 [unfolded lats]
          q95 [unfolded lats] q99 [unfolded lats] lats
          phase_stats.select_convs sum.inject simp_thms ex_simps)
qed

text \<open>
  Claim C5, as amended. Over the latencies of a bucket, \<open>p95\<close> and \<open>p99\<close> return the sample at
  sorted index \<open>floor (n * q)\<close> clamped to \<open>[0, n - 1]\<close>, and 0 over no samples; so do the
  \<open>p50\<close>, \<open>p95\<close> and \<open>p99\<close> entries of the statistics of a phase, which \<open>get_phase_stats\<close>
  always returns (no index is out of range). The \<open>p50\<close> of a bucket is the statistical median:
  0 over no samples, the sample at sorted index \<open>floor (n / 2)\<close> when \<open>n\<close> is odd, and the mean of
  that sample and the one before it when \<open>n\<close> is even.
\<close>

theorem quantiles_nearest_rank_except_endpoint_median:
  "p95 s = quantile_spec (95 / 100) (latencies s)
   \<and> p99 s = quantile_spec (99 / 100) (latencies s)
   \<and> p50 s = (if latencies s = [] then 0
               else if odd (length (latencies s)) then quantile_spec (1 / 2) (latencies s)
               else (sort (latencies s) ! (length (latencies s) div 2 - 1)
                     + quantile_spec (1 / 2) (latencies s)) / 2)
   \<and> (\<exists>st. get_phase_stats m ph = Inr st
          \<and> ps_p50 st = quantile_spec (1 / 2)
               (map latency_ms (if ph = ''setup'' then setup_requests m else runtime_requests m))
          \<and> ps_p95 st = quantile_spec (95 / 100)
               (map latency_ms (if ph = ''setup'' then setup_requests m else runtime_requests m))
          \<and> ps_p99 st = quantile_spec (99 / 100)
               (map latency_ms (if ph = ''setup'' then setup_requests m else runtime_requests m)))
   \<and> quantile_spec q [] = 0"
proof -
  have "quantile_spec q [] = 0" by (simp add: quantile_spec_def)
  with p95_spec [of s] p99_spec [of s] p50_cases [of s] phase_quantiles [OF refl, of m ph]
  show ?thesis by (simp only: simp_thms)
qed

theorem quantiles_nearest_rank_except_endpoint_median_witness:
  "quantile_spec (95 / 100)
     (latencies \<lparr>total = 3, success = 3, failed = 0, latencies = [30, 10, 20],
                 errors = (\<lambda>_. 0)\<rparr>) = 30"
proof -
  have "p95 \<lparr>total = 3, success = 3, failed = 0, latencies = [30, 10, 20],
              errors = (\<lambda>_. 0)\<rparr> = 30"
    by (simp add: p95_def Let_def)
  with quantiles_nearest_rank_except_endpoint_median
    [of "\<lparr>total = 3, success = 3, failed = 0, latencies = [30, 10, 20], errors = (\<lambda>_. 0)\<rparr>"
        MetricsCollector_new "''runtime''" 0]
  show ?thesis by (elim conjE) (simp only:)
qed

text \<open>
  Claim C5 as stated fails for the \<open>p50\<close> of a bucket: over the two samples 1 and 3 the sample at
  sorted index \<open>floor (2 * 0.5) = 1\<close> is 3, and \<open>p50\<close> is their mean.
\<close>

theorem endpoint_p50_is_not_nearest_rank:
  "p50 \<lparr>total = 2, success = 2, failed = 0, latencies = [1, 3], errors = (\<lambda>_. 0)\<rparr>
   \<noteq> quantile_spec (1 / 2) [1, 3]"
  by (simp add: p50_def median_def quantile_spec_def Let_def)

section \<open>The verdict of the rich output path\<close>

lemma error_rate_runtime:
  assumes "runtime_requests m \<noteq> []"
  shows "\<exists>st r. get_phase_stats m ''runtime'' = Inr st \<and> ps_success_rate st = Some r
           \<and> error_rate_percent st = 100 - r
           \<and> ps_p95 st = quantile_spec (95 / 100) (map latency_ms (runtime_requests m))"
proof -
  define reqs where "reqs = (if ''runtime'' = ''setup'' then setup_requests m else runtime_requests m)"
  have reqs: "reqs = runtime_requests m" by (simp add: reqs_def)
  have ne: "reqs \<noteq> []" using assms reqs by simp
  define n where "n = length reqs"
  define k where "k = length (filter rm_success reqs)"
  have kn: "k \<le> n" by (simp add: k_def n_def)
  have n0: "0 < n" using ne by (simp add: n_def)
  have "(of_nat (n - k) :: rat) / of_nat n * 100 = 100 - of_nat k / of_nat n * 100"
    using kn n0 by (simp add: of_nat_diff field_simps)
  moreover obtain st where st: "get_phase_stats m ''runtime'' = Inr st"
    and p: "ps_p95 st = quantile_spec (95 / 100) (map latency_ms (if ''runtime'' = ''setup'' then setup_requests m else runtime_requests m))"
    using phase_quantiles [OF refl, of m "''runtime''"] by blast
  moreover have "get_phase_stats m ''runtime'' = Inr \<lparr>ps_total = length reqs, ps_success = length (filter rm_success reqs),
          ps_failed = length reqs - length (filter rm_success reqs),
          ps_success_rate = Some (of_nat (length (filter rm_success reqs)) / of_nat (length reqs) * 100),
          ps_p50 = sort (map latency_ms reqs) ! (length reqs div 2),
          ps_p95 = sort (map latency_ms reqs) ! (length reqs * 95 div 100),
          ps_p99 = sort (map latency_ms reqs) ! (length reqs * 99 div 100)\<rparr>"
    using get_phase_stats_nonempty [OF reqs_def ne] .
  ultimately show ?thesis
    by (auto simp add: error_rate_percent_def n_def k_def)
qed

lemma setup_rate:
  assumes "setup_requests m \<noteq> []"
  shows "\<exists>st r. get_phase_stats m ''setup'' = Inr st \<and> ps_success_rate st = Some r"
  using get_phase_stats_nonempty [OF refl, of "''setup''" m] assms by simp



section \<open>The exit status\<close>

text \<open>
  Claim C4 fails on the output path without the rich library (lines 700 to 703): there the
  result is \<open>success_rate >= 95\<close>, whatever the configured thresholds and the p95 latency. With
  the thresholds 5 percent and 200 ms and one runtime request that succeeded in 500 ms, this
  path returns true, so the process exits with status 0, while the verdict formula, and the
  rich path on the same metrics, fail the run on its p95.
\<close>

theorem fallback_exit_status_ignores_thresholds:
  "print_results False \<lparr>max_error_rate_percent = 5, max_p95_latency_ms = 200\<rparr>
     (replay [Record (tweet_outcome True 500), SetPhase ''runtime'',
              Record (tweet_outcome True 500)])
     = Inr \<lparr>passed = True, reasons = []\<rparr>
   \<and> exit_status True = 0
   \<and> print_results True \<lparr>max_error_rate_percent = 5, max_p95_latency_ms = 200\<rparr>
     (replay [Record (tweet_outcome True 500), SetPhase ''runtime'',
              Record (tweet_outcome True 500)])
     = Inr \<lparr>passed = False, reasons = [P95Reason 500 200]\<rparr>
   \<and> exit_status False = 1"
  by (simp add: replay_def tweet_outcome_def print_results_def get_phase_stats_def item_def
        Let_def exit_status_def MetricsCollector_new_def record_metric_def set_phase_def)

section \<open>One call, one outcome\<close>

lemma api_call_returned:
  assumes "reply (answer E cfg meth ep user_id body t) = Inr (st, d)"
  shows "api_call E cfg meth ep user_id body expected_status t =
     (\<lparr>res_success = (st \<in> set (case expected_status of None \<Rightarrow> [200] | Some l \<Rightarrow> l)),
       res_status = st, res_data = Some d, res_error = None\<rparr>,
      t\<lparr>world := snd (transport E (snd (perf_counter E (world t)))
            \<lparr>req_method = meth, req_url = base_url cfg @ ep, req_user_id = user_id,
             req_body = body\<rparr>),
        metrics := record_metric
          \<lparr>endpoint = endpoint_key (uuid_ok E) ep, http_method = meth, status = st,
           latency_ms = (waited (answer E cfg meth ep user_id body t)
                         + elapsed (answer E cfg meth ep user_id body t)) * 1000,
           rm_success = (st \<in> set (case expected_status of None \<Rightarrow> [200] | Some l \<Rightarrow> l)),
           error = (if st \<in> set (case expected_status of None \<Rightarrow> [200] | Some l \<Rightarrow> l)
                    then None else Some (''HTTP '' @ str_nat st))\<rparr>
          (metrics t)\<rparr>)"
  using assms
  by (simp add: api_call_def answer_def Let_def split_beta)

lemma api_call_raised:
  assumes "reply (answer E cfg meth ep user_id body t) = Inl e"
  shows "api_call E cfg meth ep user_id body expected_status t =
     (\<lparr>res_success = False, res_status = 0, res_data = None, res_error = Some e\<rparr>,
      t\<lparr>world := snd (transport E (snd (perf_counter E (world t)))
            \<lparr>req_method = meth, req_url = base_url cfg @ ep, req_user_id = user_id,
             req_body = body\<rparr>),
        metrics := record_metric
          \<lparr>endpoint = endpoint_key (uuid_ok E) ep, http_method = meth, status = 0,
           latency_ms = (waited (answer E cfg meth ep user_id body t)
                         + elapsed (answer E cfg meth ep user_id body t)) * 1000,
           rm_success = False, error = Some e\<rparr>
          (metrics t)\<rparr>)"
  using assms
  by (simp add: api_call_def answer_def Let_def split_beta)

lemma requests_record: "requests (record_metric metric m) = requests m @ [metric]"
  by (simp add: record_metric_def Let_def)

lemma phase_record: "phase (record_metric metric m) = phase m"
  by (simp add: record_metric_def Let_def)

lemma setup_requests_record:
  "setup_requests (record_metric metric m)
   = (if phase m = ''setup'' then setup_requests m @ [metric] else setup_requests m)"
  by (simp add: record_metric_def Let_def)

lemma runtime_requests_record:
  "runtime_requests (record_metric metric m)
   = (if phase m = ''setup'' then runtime_requests m else runtime_requests m @ [metric])"
  by (simp add: record_metric_def Let_def)

text \<open>
  Claim C7. Whatever the transport does with the request, \<open>api_call\<close> returns its result
  dictionary and has recorded exactly one outcome, appended to the collector: with the status
  the transport returned, a success exactly when that status is in the acceptable set of the
  call; or, when the transport raised (timeout, connection fault), a failure with status 0 and
  the message of the exception as its error. The model of \<open>api_call\<close> has no error result
  because the handler \<open>except Exception\<close> covers the whole request: both cases of the reply
  end in the returned pair.
\<close>

theorem api_call_records_exactly_one_outcome:
  "\<exists>metric.
     metrics (snd (api_call E cfg meth ep user_id body expected_status t))
       = record_metric metric (metrics t)
     \<and> requests (metrics (snd (api_call E cfg meth ep user_id body expected_status t)))
       = requests (metrics t) @ [metric]
     \<and> http_method metric = meth
     \<and> endpoint metric = endpoint_key (uuid_ok E) ep
     \<and> res_success (fst (api_call E cfg meth ep user_id body expected_status t))
       = rm_success metric
     \<and> (case reply (answer E cfg meth ep user_id body t) of
          Inr (st, d) \<Rightarrow>
            status metric = st
            \<and> (rm_success metric
                 \<longleftrightarrow> st \<in> set (case expected_status of None \<Rightarrow> [200] | Some l \<Rightarrow> l))
        | Inl e \<Rightarrow>
            status metric = 0 \<and> \<not> rm_success metric \<and> error metric = Some e)"
proof (cases "reply (answer E cfg meth ep user_id body t)")
  case (Inl e)
  show ?thesis
    by (simp add: api_call_raised [OF Inl] Inl requests_record)
next
  case (Inr p)
  obtain st d where p: "p = (st, d)" by (cases p)
  show ?thesis
    using Inr by (simp add: api_call_returned [OF Inr [unfolded p]] p requests_record)
qed

theorem api_call_records_exactly_one_outcome_witness:
  "\<exists>metric.
     requests (metrics (snd
      (api_call scripted_env local_config ''POST'' ''/api/v1/tweets'' ''u1'' (Some ''hi'')
         (Some [201])
         (LoadTester_new [\<lparr>waited = 0, elapsed = 30, reply = Inl ''timeout''\<rparr>]))))
       = [metric]
     \<and> status metric = 0 \<and> \<not> rm_success metric \<and> error metric = Some ''timeout''"
  using api_call_records_exactly_one_outcome
    [of scripted_env local_config "''POST''" "''/api/v1/tweets''" "''u1''" "Some ''hi''"
        "Some [201]"
        "LoadTester_new [\<lparr>waited = 0, elapsed = 30, reply = Inl ''timeout''\<rparr>]"]
  by (auto simp add: answer_def scripted_env_def LoadTester_new_def MetricsCollector_new_def)

section \<open>Follow and unfollow\<close>

lemma failed_record:
  "failed (by_endpoint (record_metric metric m) k)
   = (if k = bucket_key metric \<and> \<not> rm_success metric then failed (by_endpoint m k) + 1
      else failed (by_endpoint m k))"
  by (simp add: by_endpoint_record record_stats_failed)

lemma accepted_leaves_failures:
  assumes "reply (answer E cfg meth ep user_id body t) = Inr (st, d)"
  shows "(\<exists>metric. requests (metrics (snd (api_call E cfg meth ep user_id body (Some acc) t)))
                     = requests (metrics t) @ [metric]
                   \<and> (rm_success metric \<longleftrightarrow> st \<in> set acc))
         \<and> (st \<in> set acc \<longrightarrow>
              (\<forall>k. failed (by_endpoint (metrics (snd (api_call E cfg meth ep user_id body (Some acc) t))) k)
                   = failed (by_endpoint (metrics t) k))
              \<and> filter (\<lambda>r. \<not> rm_success r)
                   (runtime_requests (metrics (snd (api_call E cfg meth ep user_id body (Some acc) t))))
                 = filter (\<lambda>r. \<not> rm_success r) (runtime_requests (metrics t)))"
  by (simp add: api_call_returned [OF assms] requests_record failed_record
        runtime_requests_record)

text \<open>
  Claim C10. When the transport answers a \<open>follow_user\<close> request with a status, the recorded
  outcome is a success exactly for 201 and 409; for \<open>unfollow_user\<close>, exactly for 200, 204 and
  404. With such a status no bucket gains a failure and the failed outcomes of the runtime
  phase stay the same, so the call adds nothing to the error rate.
\<close>

theorem follow_and_unfollow_accept_conflict_and_missing:
  "(reply (answer E cfg ''POST'' (''/api/v1/users/'' @ a @ ''/follow/'' @ b) a None t) = Inr (st, d)
     \<longrightarrow> (\<exists>metric. requests (metrics (snd (follow_user E cfg a b t)))
                       = requests (metrics t) @ [metric]
                     \<and> (rm_success metric \<longleftrightarrow> st = 201 \<or> st = 409))
          \<and> (st = 201 \<or> st = 409 \<longrightarrow>
               (\<forall>k. failed (by_endpoint (metrics (snd (follow_user E cfg a b t))) k)
                    = failed (by_endpoint (metrics t) k))
               \<and> filter (\<lambda>r. \<not> rm_success r) (runtime_requests (metrics (snd (follow_user E cfg a b t))))
                  = filter (\<lambda>r. \<not> rm_success r) (runtime_requests (metrics t))))
   \<and> (reply (answer E cfg ''DELETE'' (''/api/v1/users/'' @ a @ ''/follow/'' @ b) a None t) = Inr (st', d')
     \<longrightarrow> (\<exists>metric. requests (metrics (snd (unfollow_user E cfg a b t)))
                       = requests (metrics t) @ [metric]
                     \<and> (rm_success metric \<longleftrightarrow> st' = 200 \<or> st' = 204 \<or> st' = 404))
          \<and> (st' = 200 \<or> st' = 204 \<or> st' = 404 \<longrightarrow>
               (\<forall>k. failed (by_endpoint (metrics (snd (unfollow_user E cfg a b t))) k)
                    = failed (by_endpoint (metrics t) k))
               \<and> filter (\<lambda>r. \<not> rm_success r) (runtime_requests (metrics (snd (unfollow_user E cfg a b t))))
                  = filter (\<lambda>r. \<not> rm_success r) (runtime_requests (metrics t))))"
proof -
  have follow: "reply (answer E cfg ''POST'' (''/api/v1/users/'' @ a @ ''/follow/'' @ b) a None t) = Inr (st, d)
     \<longrightarrow> (\<exists>metric. requests (metrics (snd (follow_user E cfg a b t)))
                       = requests (metrics t) @ [metric]
                     \<and> (rm_success metric \<longleftrightarrow> st = 201 \<or> st = 409))
          \<and> (st = 201 \<or> st = 409 \<longrightarrow>
               (\<forall>k. failed (by_endpoint (metrics (snd (follow_user E cfg a b t))) k)
                    = failed (by_endpoint (metrics t) k))
               \<and> filter (\<lambda>r. \<not> rm_success r) (runtime_requests (metrics (snd (follow_user E cfg a b t))))
                  = filter (\<lambda>r. \<not> rm_success r) (runtime_requests (metrics t)))"
  proof
    assume h: "reply (answer E cfg ''POST'' (''/api/v1/users/'' @ a @ ''/follow/'' @ b) a None t) = Inr (st, d)"
    from accepted_leaves_failures [OF h, of "[201, 409]"]
    show "(\<exists>metric. requests (metrics (snd (follow_user E cfg a b t)))
                       = requests (metrics t) @ [metric]
                     \<and> (rm_success metric \<longleftrightarrow> st = 201 \<or> st = 409))
          \<and> (st = 201 \<or> st = 409 \<longrightarrow>
               (\<forall>k. failed (by_endpoint (metrics (snd (follow_user E cfg a b t))) k)
                    = failed (by_endpoint (metrics t) k))
               \<and> filter (\<lambda>r. \<not> rm_success r) (runtime_requests (metrics (snd (follow_user E cfg a b t))))
                  = filter (\<lambda>r. \<not> rm_success r) (runtime_requests (metrics t)))"
      by (simp add: follow_user_def)
  qed
  have unfollow: "reply (answer E cfg ''DELETE'' (''/api/v1/users/'' @ a @ ''/follow/'' @ b) a None t) = Inr (st', d')
     \<longrightarrow> (\<exists>metric. requests (metrics (snd (unfollow_user E cfg a b t)))
                       = requests (metrics t) @ [metric]
                     \<and> (rm_success metric \<longleftrightarrow> st' = 200 \<or> st' = 204 \<or> st' = 404))
          \<and> (st' = 200 \<or> st' = 204 \<or> st' = 404 \<longrightarrow>
               (\<forall>k. failed (by_endpoint (metrics (snd (unfollow_user E cfg a b t))) k)
                    = failed (by_endpoint (metrics t) k))
               \<and> filter (\<lambda>r. \<not> rm_success r) (runtime_requests (metrics (snd (unfollow_user E cfg a b t))))
                  = filter (\<lambda>r. \<not> rm_success r) (runtime_requests (metrics t)))"
  proof
    assume h: "reply (answer E cfg ''DELETE'' (''/api/v1/users/'' @ a @ ''/follow/'' @ b) a None t) = Inr (st', d')"
    from accepted_leaves_failures [OF h, of "[200, 204, 404]"]
    show "(\<exists>metric. requests (metrics (snd (unfollow_user E cfg a b t)))
                       = requests (metrics t) @ [metric]
                     \<and> (rm_success metric \<longleftrightarrow> st' = 200 \<or> st' = 204 \<or> st' = 404))
          \<and> (st' = 200 \<or> st' = 204 \<or> st' = 404 \<longrightarrow>
               (\<forall>k. failed (by_endpoint (metrics (snd (unfollow_user E cfg a b t))) k)
                    = failed (by_endpoint (metrics t) k))
               \<and> filter (\<lambda>r. \<not> rm_success r) (runtime_requests (metrics (snd (unfollow_user E cfg a b t))))
                  = filter (\<lambda>r. \<not> rm_success r) (runtime_requests (metrics t)))"
      by (simp add: unfollow_user_def)
  qed
  from follow unfollow show ?thesis by (rule conjI)
qed

theorem follow_and_unfollow_accept_conflict_and_missing_witness:
  "reply (answer scripted_env local_config ''POST''
            (''/api/v1/users/'' @ ''u1'' @ ''/follow/'' @ ''u2'') ''u1'' None
            (LoadTester_new [\<lparr>waited = 0, elapsed = 1, reply = Inr (409, JObj [])\<rparr>]))
     = Inr (409, JObj [])
   \<and> (\<forall>k. failed (by_endpoint (metrics (snd (follow_user scripted_env local_config ''u1'' ''u2''
            (LoadTester_new [\<lparr>waited = 0, elapsed = 1, reply = Inr (409, JObj [])\<rparr>])))) k)
          = 0)
   \<and> reply (answer scripted_env local_config ''DELETE''
            (''/api/v1/users/'' @ ''u1'' @ ''/follow/'' @ ''u2'') ''u1'' None
            (LoadTester_new [\<lparr>waited = 0, elapsed = 1, reply = Inr (404, JObj [])\<rparr>]))
     = Inr (404, JObj [])
   \<and> (\<forall>k. failed (by_endpoint (metrics (snd (unfollow_user scripted_env local_config ''u1'' ''u2''
            (LoadTester_new [\<lparr>waited = 0, elapsed = 1, reply = Inr (404, JObj [])\<rparr>])))) k)
          = 0)"
proof -
  have f: "reply (answer scripted_env local_config ''POST''
            (''/api/v1/users/'' @ ''u1'' @ ''/follow/'' @ ''u2'') ''u1'' None
            (LoadTester_new [\<lparr>waited = 0, elapsed = 1, reply = Inr (409, JObj [])\<rparr>]))
     = Inr (409, JObj [])"
    by (simp add: answer_def scripted_env_def LoadTester_new_def)
  have u: "reply (answer scripted_env local_config ''DELETE''
            (''/api/v1/users/'' @ ''u1'' @ ''/follow/'' @ ''u2'') ''u1'' None
            (LoadTester_new [\<lparr>waited = 0, elapsed = 1, reply = Inr (404, JObj [])\<rparr>]))
     = Inr (404, JObj [])"
    by (simp add: answer_def scripted_env_def LoadTester_new_def)
  have z: "\<And>w k. failed (by_endpoint (metrics (LoadTester_new w)) k) = 0"
    by (simp add: LoadTester_new_def MetricsCollector_new_def EndpointStats_new_def)
  from follow_and_unfollow_accept_conflict_and_missing
    [of scripted_env local_config "''u1''" "''u2''"
        "LoadTester_new [\<lparr>waited = 0, elapsed = 1, reply = Inr (409, JObj [])\<rparr>]" 409 "JObj []"
        404 "JObj []"] f
  have a: "\<forall>k. failed (by_endpoint (metrics (snd (follow_user scripted_env local_config ''u1'' ''u2''
            (LoadTester_new [\<lparr>waited = 0, elapsed = 1, reply = Inr (409, JObj [])\<rparr>])))) k) = 0"
    by (simp add: z)
  from follow_and_unfollow_accept_conflict_and_missing
    [of scripted_env local_config "''u1''" "''u2''"
        "LoadTester_new [\<lparr>waited = 0, elapsed = 1, reply = Inr (404, JObj [])\<rparr>]" 409 "JObj []"
        404 "JObj []"] u
  have b: "\<forall>k. failed (by_endpoint (metrics (snd (unfollow_user scripted_env local_config ''u1'' ''u2''
            (LoadTester_new [\<lparr>waited = 0, elapsed = 1, reply = Inr (404, JObj [])\<rparr>])))) k) = 0"
    by (simp add: z)
  from f u a b show ?thesis by blast
qed

section \<open>What the latency measures\<close>

text \<open>
  Claim C3, as amended. The latency of the recorded outcome is the time from the entry of
  \<open>api_call\<close>, before the semaphore is entered, to the arrival of the response or of the
  exception: the time suspended on the semaphore plus the time of the exchange, in
  milliseconds.
\<close>

theorem latency_spans_permit_wait_and_exchange:
  "\<exists>metric.
     requests (metrics (snd (api_call E cfg meth ep user_id body expected_status t)))
       = requests (metrics t) @ [metric]
     \<and> latency_ms metric
       = (waited (answer E cfg meth ep user_id body t)
          + elapsed (answer E cfg meth ep user_id body t)) * 1000"
proof (cases "reply (answer E cfg meth ep user_id body t)")
  case (Inl e)
  show ?thesis
    by (simp add: api_call_raised [OF Inl] requests_record)
next
  case (Inr p)
  obtain st d where p: "p = (st, d)" by (cases p)
  show ?thesis
    by (simp add: api_call_returned [OF Inr [unfolded p]] requests_record)
qed

theorem latency_spans_permit_wait_and_exchange_witness:
  "\<exists>metric.
     requests (metrics (snd
      (api_call scripted_env local_config ''GET'' ''/api/v1/users/u1/followers?limit=20'' ''u1''
         None (Some [200])
         (LoadTester_new [\<lparr>waited = 2, elapsed = 1, reply = Inr (200, JObj [])\<rparr>]))))
       = [metric]
     \<and> latency_ms metric = 3000"
  using latency_spans_permit_wait_and_exchange
    [of scripted_env local_config "''GET''" "''/api/v1/users/u1/followers?limit=20''" "''u1''"
        None "Some [200]"
        "LoadTester_new [\<lparr>waited = 2, elapsed = 1, reply = Inr (200, JObj [])\<rparr>]"]
  by (simp add: answer_def scripted_env_def LoadTester_new_def MetricsCollector_new_def)

text \<open>
  Claim C3 as stated fails: a call that waits 2 seconds for its permit and whose exchange takes
  1 second is recorded with 3000 ms, not with the 1000 ms of the exchange.
\<close>

theorem latency_is_not_the_exchange_alone:
  "latency_ms (last (requests (metrics (snd
      (api_call scripted_env local_config ''GET'' ''/api/v1/users/u1/followers?limit=20'' ''u1''
         None (Some [200])
         (LoadTester_new [\<lparr>waited = 2, elapsed = 1, reply = Inr (200, JObj [])\<rparr>]))))))
   \<noteq> elapsed (answer scripted_env local_config ''GET'' ''/api/v1/users/u1/followers?limit=20''
         ''u1'' None (LoadTester_new [\<lparr>waited = 2, elapsed = 1, reply = Inr (200, JObj [])\<rparr>]))
       * 1000"
  by (simp add: api_call_def answer_def scripted_env_def local_config_def LoadTester_new_def
        Let_def requests_record)

section \<open>Counting the outcomes of the scenario\<close>

lemma recorded_refl: "recorded m [] m"
  by (simp add: recorded_def)

lemma recorded_trans: "recorded m ms m' \<Longrightarrow> recorded m' ns m'' \<Longrightarrow> recorded m (ms @ ns) m''"
  by (simp add: recorded_def)

lemma recorded_record: "recorded m [metric] (record_metric metric m)"
  by (simp add: recorded_def record_metric_def Let_def)

lemma did_refl: "did E 0 m m"
  unfolding did_def using recorded_refl by fastforce

lemma did_trans:
  assumes "did E j m m'" and "did E k m' m''"
  shows "did E (j + k) m m''"
proof -
  from assms(1) obtain ms where ms: "recorded m ms m'" "length ms = j"
    "always_success E \<longrightarrow> list_all rm_success ms" unfolding did_def by blast
  from assms(2) obtain ns where ns: "recorded m' ns m''" "length ns = k"
    "always_success E \<longrightarrow> list_all rm_success ns" unfolding did_def by blast
  have "recorded m (ms @ ns) m''" using ms(1) ns(1) by (rule recorded_trans)
  moreover have "length (ms @ ns) = j + k" using ms(2) ns(2) by simp
  moreover have "always_success E \<longrightarrow> list_all rm_success (ms @ ns)"
    using ms(3) ns(3) by simp
  ultimately show ?thesis unfolding did_def by blast
qed

lemma step_refl: "step E 0 t t"
  by (simp add: step_def same_users_def did_refl)

lemma step_trans: "step E j t t' \<Longrightarrow> step E k t' t'' \<Longrightarrow> step E (j + k) t t''"
  unfolding step_def same_users_def using did_trans by fastforce

lemma step_world: "step E 0 t (t\<lparr>world := w\<rparr>)"
  by (simp add: step_def same_users_def did_refl)

lemma api_call_step:
  assumes "accepts meth (case expected_status of None \<Rightarrow> [200] | Some l \<Rightarrow> l)"
  shows "step E 1 t (snd (api_call E cfg meth ep user_id body expected_status t))"
proof (cases "reply (answer E cfg meth ep user_id body t)")
  case (Inl e)
  have "\<not> always_success E"
  proof
    assume "always_success E"
    then obtain st d where "reply (fst (transport E (snd (perf_counter E (world t)))
            \<lparr>req_method = meth, req_url = base_url cfg @ ep, req_user_id = user_id,
             req_body = body\<rparr>)) = Inr (st, d)"
      unfolding always_success_def by blast
    with Inl show False by (simp add: answer_def)
  qed
  then show ?thesis
    unfolding step_def did_def same_users_def
    using recorded_record by (fastforce simp add: api_call_raised [OF Inl])
next
  case (Inr p)
  obtain st d where p: "p = (st, d)" by (cases p)
  have ok: "always_success E \<longrightarrow> st \<in> set (case expected_status of None \<Rightarrow> [200] | Some l \<Rightarrow> l)"
  proof
    assume "always_success E"
    then obtain st' d' where r: "reply (fst (transport E (snd (perf_counter E (world t)))
            \<lparr>req_method = meth, req_url = base_url cfg @ ep, req_user_id = user_id,
             req_body = body\<rparr>)) = Inr (st', d')"
      and m: "meth = ''POST'' \<longrightarrow> st' = 201" "meth = ''GET'' \<longrightarrow> st' = 200"
        "meth = ''DELETE'' \<longrightarrow> st' = 200 \<or> st' = 204 \<or> st' = 404"
      unfolding always_success_def by fastforce
    from r Inr p have "st' = st" by (simp add: answer_def)
    with m assms show "st \<in> set (case expected_status of None \<Rightarrow> [200] | Some l \<Rightarrow> l)"
      unfolding accepts_def by auto
  qed
  show ?thesis
    unfolding step_def did_def same_users_def
    using recorded_record ok
    by (fastforce simp add: api_call_returned [OF Inr [unfolded p]])
qed

lemma create_tweet_step: "step E 1 t (snd (create_tweet E cfg u c t))"
  unfolding create_tweet_def by (rule api_call_step) (simp add: accepts_def)

lemma follow_user_step: "step E 1 t (snd (follow_user E cfg a b t))"
  unfolding follow_user_def by (rule api_call_step) (simp add: accepts_def)

lemma unfollow_user_step: "step E 1 t (snd (unfollow_user E cfg a b t))"
  unfolding unfollow_user_def by (rule api_call_step) (simp add: accepts_def)

lemma get_timeline_step: "step E 1 t (snd (get_timeline E cfg u l c t))"
  unfolding get_timeline_def Let_def by (rule api_call_step) (simp add: accepts_def)

lemma get_user_tweets_step: "step E 1 t (snd (get_user_tweets E cfg u l c t))"
  unfolding get_user_tweets_def Let_def by (rule api_call_step) (simp add: accepts_def)

lemma get_followers_step: "step E 1 t (snd (get_followers E cfg u l t))"
  unfolding get_followers_def by (rule api_call_step) (simp add: accepts_def)

lemma get_following_step: "step E 1 t (snd (get_following E cfg u l t))"
  unfolding get_following_def by (rule api_call_step) (simp add: accepts_def)

lemma step_geI: "step E k t t' \<Longrightarrow> c \<le> k \<Longrightarrow> step_ge E c t t'"
  unfolding step_ge_def by blast

lemma step_ge_trans:
  "step_ge E a t t' \<Longrightarrow> step_ge E b t' t'' \<Longrightarrow> step_ge E (a + b) t t''"
  unfolding step_ge_def using step_trans add_mono by blast

lemma step_ge_weaken: "step_ge E a t t' \<Longrightarrow> b \<le> a \<Longrightarrow> step_ge E b t t'"
  unfolding step_ge_def using le_trans by blast

lemma paginate_loop_step:
  assumes fetch: "\<And>c t. step E 1 t (snd (fetch c t))"
    and fin: "paginate_loop fetch fuel pages cursor t = Done (p, t')"
  shows "step_ge E 1 t t'"
  using fin
proof (induction fuel arbitrary: pages cursor t)
  case 0
  then show ?case by simp
next
  case (Suc fuel)
  obtain r t1 where f: "fetch cursor t = (r, t1)" by (cases "fetch cursor t")
  have s1: "step E 1 t t1" using fetch [of t cursor] f by simp
  show ?case
  proof (cases "\<not> res_success r \<or> \<not> truthy (get_data r)")
    case True
    with Suc.prems f have "t' = t1" by (simp add: Let_def)
    with s1 show ?thesis by (auto intro: step_geI)
  next
    case False
    show ?thesis
    proof (cases "json_get (get_data r) ''nextCursor''")
      case (Inl e)
      with Suc.prems f False show ?thesis by (simp add: Let_def)
    next
      case (Inr c)
      show ?thesis
      proof (cases "truthy c")
        case False
        with Suc.prems f \<open>\<not> (\<not> res_success r \<or> \<not> truthy (get_data r))\<close> Inr
        have "t' = t1" by (simp add: Let_def)
        with s1 show ?thesis by (auto intro: step_geI)
      next
        case True
        with Suc.prems f \<open>\<not> (\<not> res_success r \<or> \<not> truthy (get_data r))\<close> Inr
        have "paginate_loop fetch fuel (pages + 1) c t1 = Done (p, t')"
          by (simp add: Let_def)
        from Suc.IH [OF this] have "step_ge E 1 t1 t'" .
        moreover from s1 have "step_ge E 1 t t1" by (rule step_geI) simp
        ultimately have "step_ge E (1 + 1) t t'"
          using step_ge_trans by blast
        then show ?thesis by (rule step_ge_weaken) simp
      qed
    qed
  qed
qed

lemma paginate_timeline_step:
  "paginate_timeline fuel E cfg u l t = Done (p, t') \<Longrightarrow> step_ge E 1 t t'"
  unfolding paginate_timeline_def
  by (rule paginate_loop_step [where fetch = "get_timeline E cfg u l"])
     (rule get_timeline_step)

lemma paginate_tweets_step:
  "paginate_tweets fuel E cfg u l t = Done (p, t') \<Longrightarrow> step_ge E 1 t t'"
  unfolding paginate_tweets_def
  by (rule paginate_loop_step [where fetch = "get_user_tweets E cfg u l"])
     (rule get_user_tweets_step)

lemma and_then_Done:
  "and_then x f = Done y \<Longrightarrow> \<exists>z. x = Done z \<and> f z = Done y"
  by (cases x) auto

lemma map_outcome_Done:
  "map_outcome g x = Done y \<Longrightarrow> \<exists>z. x = Done z \<and> y = g z"
  by (cases x) auto

lemma gather_step:
  assumes task: "\<And>x t t'. f x t = Done t' \<Longrightarrow> step_ge E c t t'"
    and fin: "gather f xs t = Done t'"
  shows "step_ge E (c * length xs) t t'"
  using fin
proof (induction xs arbitrary: t)
  case Nil
  then show ?case by (auto intro: step_geI step_refl)
next
  case (Cons x xs)
  from Cons.prems obtain t1 where a: "f x t = Done t1" and b: "gather f xs t1 = Done t'"
    by (auto dest: and_then_Done)
  from task [OF a] Cons.IH [OF b] have "step_ge E (c + c * length xs) t t'"
    by (rule step_ge_trans)
  then show ?case by simp
qed

lemma fold_step:
  assumes "\<And>x t. step E c t (f x t)"
  shows "step E (c * length xs) t (fold f xs t)"
proof (induction xs arbitrary: t)
  case Nil
  then show ?case by (simp add: step_refl)
next
  case (Cons x xs)
  from assms [of t x] Cons.IH [of "f x t"]
  have "step E (c + c * length xs) t (fold f xs (f x t))" by (rule step_trans)
  then show ?case by simp
qed

lemma fold_step_ge:
  assumes "\<And>x t. step_ge E c t (f x t)"
  shows "step_ge E (c * length xs) t (fold f xs t)"
proof (induction xs arbitrary: t)
  case Nil
  then show ?case by (auto intro: step_geI step_refl)
next
  case (Cons x xs)
  from assms [of t x] Cons.IH [of "f x t"]
  have "step_ge E (c + c * length xs) t (fold f xs (f x t))" by (rule step_ge_trans)
  then show ?case by simp
qed

lemma fold_invariant:
  assumes "\<And>x s. P s \<Longrightarrow> P (f x s)" and "P s"
  shows "P (fold f xs s)"
  using assms(2) by (induction xs arbitrary: s) (auto intro: assms(1))

lemma step_ge_refl: "step_ge E 0 t t"
  by (auto intro: step_geI step_refl)

lemma tweet_tasks:
  fixes g :: "nat \<times> string \<Rightarrow> (string \<times> string) list \<times> 'w LoadTester
              \<Rightarrow> (string \<times> string) list \<times> 'w LoadTester"
  assumes g: "\<And>x tasks t. \<exists>c w. g x (tasks, t) = (tasks @ [c], t\<lparr>world := w\<rparr>)"
  shows "length (fst (fold g xs (tasks, t))) = length tasks + length xs
         \<and> step E 0 t (snd (fold g xs (tasks, t)))"
proof (induction xs arbitrary: tasks t)
  case Nil
  then show ?case by (simp add: step_refl)
next
  case (Cons x xs)
  obtain c w where gx: "g x (tasks, t) = (tasks @ [c], t\<lparr>world := w\<rparr>)"
    using g by blast
  from Cons.IH [of "tasks @ [c]" "t\<lparr>world := w\<rparr>"]
  have len: "length (fst (fold g xs (tasks @ [c], t\<lparr>world := w\<rparr>))) = length tasks + 1 + length xs"
    and st: "step E 0 (t\<lparr>world := w\<rparr>) (snd (fold g xs (tasks @ [c], t\<lparr>world := w\<rparr>)))"
    by simp_all
  from step_trans [OF step_world [of E t w] st]
  show ?case using len by (simp add: gx)
qed

lemma phase_create_tweets_step:
  fixes E :: "'w env" and t :: "'w LoadTester"
  shows "step E (tweets_per_user cfg * length (all_users t)) t (phase_create_tweets E cfg t)"
proof -
  define g :: "nat \<times> string \<Rightarrow> (string \<times> string) list \<times> 'w LoadTester
              \<Rightarrow> (string \<times> string) list \<times> 'w LoadTester"
    where "g = (\<lambda>(round_num, user) (tasks, t).
                    let user_type = (if user \<in> set (celebrities t)
                                     then ''celebrity '' @ star else ''user'');
                        (u, w) = uuid4 E (world t);
                        content = ''Tweet '' @ str_nat (round_num + 1) @ '' from '' @ user_type
                                    @ '' - '' @ hex8 u
                    in (tasks @ [(user, content)], t\<lparr>world := w\<rparr>))"
  define xs where "xs = List.product [0..<tweets_per_user cfg] (all_users t)"
  have g: "\<And>x tasks t. \<exists>c w. g x (tasks, t) = (tasks @ [c], t\<lparr>world := w\<rparr>)"
    by (simp add: g_def split_beta Let_def) blast
  obtain tasks t1 where r: "fold g xs ([], t) = (tasks, t1)" by (cases "fold g xs ([], t)")
  from tweet_tasks [where g = g and xs = xs and tasks = "[]" and E = E and t = t, OF g] r
  have len: "length tasks = length xs" and st: "step E 0 t t1" by simp_all
  have "step E (1 * length tasks) t1
          (fold (\<lambda>(user, content) t. snd (create_tweet E cfg user content t)) tasks t1)"
    by (rule fold_step) (simp only: split_beta create_tweet_step)
  from step_trans [OF st this]
  have "step E (length xs) t
          (fold (\<lambda>(user, content) t. snd (create_tweet E cfg user content t)) tasks t1)"
    using len by simp
  moreover have "phase_create_tweets E cfg t
     = fold (\<lambda>(user, content) t. snd (create_tweet E cfg user content t)) tasks t1"
    using r by (simp add: phase_create_tweets_def g_def xs_def)
  moreover have "length xs = tweets_per_user cfg * length (all_users t)"
    by (simp add: xs_def)
  ultimately show ?thesis by simp
qed

lemma phase_read_timelines_step:
  assumes "phase_read_timelines fuel E cfg t = Done t'"
  shows "step_ge E (timeline_reads_per_user cfg * length (regular_users t)) t t'"
proof -
  have "step_ge E (1 * length (concat (replicate (timeline_reads_per_user cfg) (regular_users t)))) t t'"
  proof (rule gather_step [OF _ assms [unfolded phase_read_timelines_def]])
    fix x and t t' :: "'a LoadTester"
    assume "map_outcome snd (paginate_timeline fuel E cfg x (page_size_of cfg) t) = Done t'"
    then obtain p where "paginate_timeline fuel E cfg x (page_size_of cfg) t = Done (p, t')"
      by (auto dest!: map_outcome_Done)
    then show "step_ge E 1 t t'" by (rule paginate_timeline_step)
  qed
  then show ?thesis by (simp add: length_concat sum_list_replicate)
qed

lemma check_and_report_step:
  assumes "check_and_report fuel E cfg user t = Done t'"
  shows "step_ge E 3 t t'"
proof -
  from assms obtain p t1 where p: "paginate_tweets fuel E cfg user (page_size_of cfg) t = Done (p, t1)"
    and t': "t' = snd (get_following E cfg user 20 (snd (get_followers E cfg user 20 t1)))"
    unfolding check_and_report_def by (auto dest!: and_then_Done simp add: Let_def)
  from paginate_tweets_step [OF p] have a: "step_ge E 1 t t1" .
  have "step E (1 + 1) t1 t'"
    unfolding t' by (rule step_trans [OF get_followers_step get_following_step])
  then have "step_ge E 2 t1 t'" by (rule step_geI) simp
  from step_ge_trans [OF a this] have "step_ge E (1 + 2) t t'" .
  then show ?thesis by (rule step_ge_weaken) simp
qed

lemma phase_check_profiles_step:
  assumes "phase_check_profiles fuel E cfg t = Done t'"
  shows "step_ge E (3 * length (all_users t)) t t'"
  by (rule gather_step [OF _ assms [unfolded phase_check_profiles_def]])
     (rule check_and_report_step)

lemma phase_unfollow_some_step: "step_ge E 0 t (phase_unfollow_some E cfg t)"
proof -
  have inner: "\<And>user rf idxs t. step_ge E 0 t
       (fold (\<lambda>i t. snd (unfollow_user E cfg user (rf ! i) t)) idxs (t :: 'a LoadTester))"
  proof -
    fix user rf idxs and t :: "'a LoadTester"
    have "step E (1 * length idxs) t
       (fold (\<lambda>i t. snd (unfollow_user E cfg user (rf ! i) t)) idxs t)"
      by (rule fold_step) (rule unfollow_user_step)
    then show "step_ge E 0 t (fold (\<lambda>i t. snd (unfollow_user E cfg user (rf ! i) t)) idxs t)"
      by (rule step_geI) simp
  qed
  have "step_ge E (0 * length (regular_users t)) t (phase_unfollow_some E cfg t)"
    unfolding phase_unfollow_some_def Let_def
    by (rule fold_step_ge) (rule inner)
  then show ?thesis by simp
qed

lemma mixed_user_activity_step:
  assumes "mixed_user_activity fuel E cfg user round_num t = Done t'"
  shows "step_ge E 2 t t'"
proof -
  obtain u w where uw: "uuid4 E (world t) = (u, w)" by (cases "uuid4 E (world t)")
  define t1 where "t1 = snd (create_tweet E cfg user
      (''Live tweet '' @ str_nat (round_num + 1) @ '' - '' @ hex8 u) (t\<lparr>world := w\<rparr>))"
  define nf where "nf = filter (\<lambda>u. u \<noteq> user \<and>
                         u \<notin> set (case follow_graph t1 user of None \<Rightarrow> [] | Some l \<Rightarrow> l))
              (regular_users t1)"
  define t2 where "t2 = (if nf \<noteq> []
               then let (target, w) = choice E (world t1) nf
                    in snd (follow_user E cfg user target (t1\<lparr>world := w\<rparr>))
               else t1)"
  have a: "step E 1 t t1"
    using step_trans [OF step_world [of E t w] create_tweet_step] by (simp add: t1_def)
  have b: "step_ge E 0 t1 t2"
  proof (cases "nf = []")
    case True
    then show ?thesis by (simp add: t2_def step_ge_refl)
  next
    case False
    obtain target w' where c: "choice E (world t1) nf = (target, w')"
      by (cases "choice E (world t1) nf")
    from step_trans [OF step_world [of E t1 w'] follow_user_step]
    have "step E 1 t1 t2" using False c by (simp add: t2_def)
    then show ?thesis by (rule step_geI) simp
  qed
  have "mixed_user_activity fuel E cfg user round_num t
        = map_outcome snd (paginate_timeline fuel E cfg user (page_size_of cfg) t2)"
    by (simp only: mixed_user_activity_def t2_def nf_def t1_def uw Let_def prod.case)
  with assms have "map_outcome snd (paginate_timeline fuel E cfg user (page_size_of cfg) t2) = Done t'"
    by simp
  then obtain p where "paginate_timeline fuel E cfg user (page_size_of cfg) t2 = Done (p, t')"
    by (auto dest!: map_outcome_Done)
  then have c: "step_ge E 1 t2 t'" by (rule paginate_timeline_step)
  from a have "step_ge E 1 t t1" by (rule step_geI) simp
  from step_ge_trans [OF step_ge_trans [OF this b] c] have "step_ge E (1 + 0 + 1) t t'" .
  then show ?thesis by (rule step_ge_weaken) simp
qed

lemma phase_mixed_activity_step:
  assumes "phase_mixed_activity fuel E cfg t = Done t'"
  shows "step_ge E (4 * length (regular_users t)) t t'"
proof -
  have "step_ge E (2 * length (List.product [0..<2] (regular_users t))) t t'"
  proof (rule gather_step [OF _ assms [unfolded phase_mixed_activity_def]])
    fix x :: "nat \<times> string" and t t' :: "'a LoadTester"
    assume "(case x of (round_num, user) \<Rightarrow> mixed_user_activity fuel E cfg user round_num) t = Done t'"
    then show "step_ge E 2 t t'"
      by (cases x) (auto intro: mixed_user_activity_step)
  qed
  then show ?thesis by simp
qed

lemma did_refl_ex: "\<exists>k. did E k m m"
  using did_refl by blast

lemma step_setup_rel: "step E k t t' \<Longrightarrow> setup_rel E t t'"
  unfolding step_def same_users_def setup_rel_def by blast

lemma setup_rel_refl: "setup_rel E t t"
  unfolding setup_rel_def using did_refl by blast

lemma setup_rel_trans: "setup_rel E t t' \<Longrightarrow> setup_rel E t' t'' \<Longrightarrow> setup_rel E t t''"
  unfolding setup_rel_def using did_trans by fastforce

lemma fold_setup_rel:
  assumes "\<And>x t. setup_rel E t (f x t)"
  shows "setup_rel E t (fold f xs t)"
proof (induction xs arbitrary: t)
  case Nil
  then show ?case by (simp add: setup_rel_refl)
next
  case (Cons x xs)
  from setup_rel_trans [OF assms [of t x] Cons.IH [of "f x t"]] show ?case by simp
qed

lemma build_setup_rel:
  assumes "\<And>x tasks t. setup_rel E t (snd (g x (tasks, t)))"
  shows "setup_rel E t (snd (fold g xs (tasks, t)))"
proof (induction xs arbitrary: tasks t)
  case Nil
  then show ?case by (simp add: setup_rel_refl)
next
  case (Cons x xs)
  obtain tasks1 t1 where gx: "g x (tasks, t) = (tasks1, t1)" by (cases "g x (tasks, t)")
  from assms [of t x tasks] gx have a: "setup_rel E t t1" by simp
  from setup_rel_trans [OF a Cons.IH [of t1 tasks1]] show ?case by (simp add: gx)
qed

lemma phase_build_celebrity_followers_rel:
  fixes E :: "'w env" and t :: "'w LoadTester"
  shows "setup_rel E t (phase_build_celebrity_followers E cfg t)"
proof -
  define g :: "string \<Rightarrow> (string \<times> string) list \<times> 'w LoadTester
               \<Rightarrow> (string \<times> string) list \<times> 'w LoadTester"
    where "g = (\<lambda>celeb (tasks, t).
                    let (ids, w) = draw_uuids E 5000 (world t)
                    in (tasks @ map (\<lambda>follower_id. (follower_id, celeb)) ids,
                        t\<lparr>world := w, celebrity_followers := celebrity_followers t @ ids\<rparr>))"
  have g: "\<And>x tasks t. setup_rel E t (snd (g x (tasks, t)))"
    by (simp add: g_def split_beta Let_def setup_rel_def did_refl_ex)
  obtain tasks t1 where r: "fold g (celebrities t) ([], t) = (tasks, t1)"
    by (cases "fold g (celebrities t) ([], t)")
  from build_setup_rel [where g = g and xs = "celebrities t" and tasks = "[]" and t = t, OF g] r
  have a: "setup_rel E t t1" by simp
  have b: "setup_rel E t1
     (fold (\<lambda>(follower_id, celeb) t. snd (follow_user E cfg follower_id celeb t)) tasks t1)"
    by (rule fold_setup_rel) (simp only: split_beta step_setup_rel [OF follow_user_step])
  have "phase_build_celebrity_followers E cfg t
     = fold (\<lambda>(follower_id, celeb) t. snd (follow_user E cfg follower_id celeb t)) tasks t1"
    using r by (simp add: phase_build_celebrity_followers_def g_def Let_def)
  with setup_rel_trans [OF a b] show ?thesis by simp
qed

lemma phase_build_social_graph_rel:
  fixes E :: "'w env" and t :: "'w LoadTester"
  shows "setup_rel E t (phase_build_social_graph E cfg t)"
proof -
  define g :: "string \<Rightarrow> (string \<times> string) list \<times> 'w LoadTester
               \<Rightarrow> (string \<times> string) list \<times> 'w LoadTester"
    where "g = (\<lambda>user (tasks, t).
                    let others = filter (\<lambda>u. u \<noteq> user) (regular_users t);
                        (to_follow, w) = sample E (world t) others
                           (min (follows_per_regular_user cfg) (length others));
                        to_follow = to_follow @ celebrities t
                    in (tasks @ map (\<lambda>target. (user, target)) to_follow,
                        t\<lparr>world := w, follow_graph := (follow_graph t)(user \<mapsto> to_follow)\<rparr>))"
  have g: "\<And>x tasks t. setup_rel E t (snd (g x (tasks, t)))"
    by (simp add: g_def split_beta Let_def setup_rel_def did_refl_ex)
  obtain tasks t1 where r: "fold g (regular_users t) ([], t) = (tasks, t1)"
    by (cases "fold g (regular_users t) ([], t)")
  from build_setup_rel [where g = g and xs = "regular_users t" and tasks = "[]" and t = t, OF g] r
  have a: "setup_rel E t t1" by simp
  have b: "setup_rel E t1
     (fold (\<lambda>(user, target) t. snd (follow_user E cfg user target t)) tasks t1)"
    by (rule fold_setup_rel) (simp only: split_beta step_setup_rel [OF follow_user_step])
  have "phase_build_social_graph E cfg t
     = fold (\<lambda>(user, target) t. snd (follow_user E cfg user target t)) tasks t1"
    using r by (simp add: phase_build_social_graph_def g_def Let_def)
  with setup_rel_trans [OF a b] show ?thesis by simp
qed

lemma created_refl: "created E 0 0 t t"
  by (simp add: created_def did_refl)

lemma created_trans:
  "created E a b t t' \<Longrightarrow> created E c d t' t'' \<Longrightarrow> created E (a + c) (b + d) t t''"
  unfolding created_def using did_trans [of E "a + b" _ _ "c + d"]
  by (auto simp add: ac_simps)

lemma fold_created_regular:
  assumes "\<And>x t. created E 1 0 t (f x t)"
  shows "created E (length xs) 0 t (fold f xs t)"
proof (induction xs arbitrary: t)
  case Nil
  then show ?case by (simp add: created_refl)
next
  case (Cons x xs)
  from created_trans [OF assms [of t x] Cons.IH [of "f x t"]] show ?case by simp
qed

lemma fold_created_celebrities:
  assumes "\<And>x t. created E 0 1 t (f x t)"
  shows "created E 0 (length xs) t (fold f xs t)"
proof (induction xs arbitrary: t)
  case Nil
  then show ?case by (simp add: created_refl)
next
  case (Cons x xs)
  from created_trans [OF assms [of t x] Cons.IH [of "f x t"]] show ?case by simp
qed

lemma create_regular_user:
  "created E 1 0 t
     (snd (create_tweet E cfg user_id content
             (t\<lparr>world := w, regular_users := regular_users t @ [user_id]\<rparr>)))"
  using create_tweet_step
    [of E "t\<lparr>world := w, regular_users := regular_users t @ [user_id]\<rparr>" cfg user_id content]
  by (simp add: created_def step_def same_users_def)

lemma create_celebrity:
  "created E 0 1 t
     (snd (create_tweet E cfg user_id content
             (t\<lparr>world := w, celebrities := celebrities t @ [user_id]\<rparr>)))"
  using create_tweet_step
    [of E "t\<lparr>world := w, celebrities := celebrities t @ [user_id]\<rparr>" cfg user_id content]
  by (simp add: created_def step_def same_users_def)

lemma phase_create_users_created:
  "created E (users_regular cfg) (users_celebrities cfg) t (phase_create_users E cfg t)
   \<and> all_users (phase_create_users E cfg t)
     = regular_users (phase_create_users E cfg t) @ celebrities (phase_create_users E cfg t)"
proof -
  define f1 where "f1 = (\<lambda>i t.
                 let (user_id, w) = uuid4 E (world t);
                     t = t\<lparr>world := w, regular_users := regular_users t @ [user_id]\<rparr>
                 in snd (create_tweet E cfg user_id
                           (''Hello! I'' @ [CHR 0x27] @ ''m regular user '' @ str_nat (i + 1)) t))"
  define f2 where "f2 = (\<lambda>i t.
                 let (user_id, w) = uuid4 E (world t);
                     t = t\<lparr>world := w, celebrities := celebrities t @ [user_id]\<rparr>
                 in snd (create_tweet E cfg user_id
                           (''Hello! I'' @ [CHR 0x27] @ ''m celebrity '' @ str_nat (i + 1) @ '' '' @ star)
                           t))"
  have s1: "\<And>x t. created E 1 0 t (f1 x t)"
    unfolding f1_def Let_def split_beta by (rule create_regular_user)
  have s2: "\<And>x t. created E 0 1 t (f2 x t)"
    unfolding f2_def Let_def split_beta by (rule create_celebrity)
  define t1 where "t1 = fold f1 [0..<users_regular cfg] t"
  define t2 where "t2 = fold f2 [0..<users_celebrities cfg] t1"
  have a: "created E (users_regular cfg) 0 t t1"
    using fold_created_regular [of E f1 "[0..<users_regular cfg]" t, OF s1] by (simp add: t1_def)
  have b: "created E 0 (users_celebrities cfg) t1 t2"
    using fold_created_celebrities [of E f2 "[0..<users_celebrities cfg]" t1, OF s2]
    by (simp add: t2_def)
  have eq: "phase_create_users E cfg t = t2\<lparr>all_users := regular_users t2 @ celebrities t2\<rparr>"
    by (simp only: phase_create_users_def Let_def f1_def f2_def t1_def t2_def)
  from created_trans [OF a b] show ?thesis
    by (simp add: eq created_def)
qed

lemma did_in_setup:
  assumes "did E k m m'" and "phase m = ''setup''"
  shows "phase m' = ''setup'' \<and> runtime_requests m' = runtime_requests m
         \<and> length (setup_requests m') = length (setup_requests m) + k"
  using assms unfolding did_def recorded_def by auto

lemma did_in_runtime:
  assumes "did E k m m'" and "phase m \<noteq> ''setup''"
  shows "phase m' = phase m \<and> setup_requests m' = setup_requests m
         \<and> (\<exists>ms. runtime_requests m' = runtime_requests m @ ms \<and> length ms = k
                 \<and> (always_success E \<longrightarrow> list_all rm_success ms))"
  using assms unfolding did_def recorded_def by auto

lemma step_ge_users:
  "step_ge E c t t' \<Longrightarrow> regular_users t' = regular_users t \<and> all_users t' = all_users t"
  unfolding step_ge_def step_def same_users_def by blast

lemma run_setup_facts:
  assumes "regular_users t = []" and "celebrities t = []"
  shows "length (regular_users (run_setup E cfg t)) = users_regular cfg
         \<and> length (all_users (run_setup E cfg t)) = users_regular cfg + users_celebrities cfg
         \<and> phase (metrics (run_setup E cfg t)) = ''setup''
         \<and> runtime_requests (metrics (run_setup E cfg t)) = runtime_requests (metrics t)
         \<and> length (setup_requests (metrics t)) + users_regular cfg + users_celebrities cfg
             \<le> length (setup_requests (metrics (run_setup E cfg t)))"
proof -
  define t0 where "t0 = t\<lparr>metrics := set_phase ''setup'' (metrics t)\<rparr>"
  define t1 where "t1 = phase_create_users E cfg t0"
  define t2 where "t2 = phase_build_celebrity_followers E cfg t1"
  define t3 where "t3 = phase_build_social_graph E cfg t2"
  have eq: "run_setup E cfg t = t3"
    by (simp add: run_setup_def Let_def t0_def t1_def t2_def t3_def)
  have c: "created E (users_regular cfg) (users_celebrities cfg) t0 t1"
    and au: "all_users t1 = regular_users t1 @ celebrities t1"
    using phase_create_users_created [of E cfg t0] by (simp_all add: t1_def)
  have r12: "setup_rel E t1 t2"
    unfolding t2_def by (rule phase_build_celebrity_followers_rel)
  have r23: "setup_rel E t2 t3"
    unfolding t3_def by (rule phase_build_social_graph_rel)
  have r: "setup_rel E t1 t3"
    using r12 r23 by (rule setup_rel_trans)
  from r obtain k where k: "did E k (metrics t1) (metrics t3)"
    and u: "regular_users t3 = regular_users t1" "all_users t3 = all_users t1"
    unfolding setup_rel_def by blast
  from c have d1: "did E (users_regular cfg + users_celebrities cfg) (metrics t0) (metrics t1)"
    and l1: "length (regular_users t1) = users_regular cfg"
    and l2: "length (celebrities t1) = users_celebrities cfg"
    using assms by (simp_all add: created_def t0_def)
  have p0: "phase (metrics t0) = ''setup''" by (simp add: t0_def set_phase_def)
  from did_in_setup [OF did_trans [OF d1 k] p0]
  have "phase (metrics t3) = ''setup''"
    and "runtime_requests (metrics t3) = runtime_requests (metrics t0)"
    and "length (setup_requests (metrics t3))
         = length (setup_requests (metrics t0)) + (users_regular cfg + users_celebrities cfg + k)"
    by simp_all
  then show ?thesis
    using u l1 l2 au by (simp add: eq t0_def set_phase_def)
qed

lemma run_runtime_steps:
  assumes "run_runtime fuel E cfg t = Done t'"
  shows "step_ge E (tweets_per_user cfg * length (all_users t)
                    + timeline_reads_per_user cfg * length (regular_users t)
                    + 3 * length (all_users t) + 4 * length (regular_users t))
           (t\<lparr>metrics := set_phase ''runtime'' (metrics t)\<rparr>) t'"
proof -
  define t0 where "t0 = t\<lparr>metrics := set_phase ''runtime'' (metrics t)\<rparr>"
  define t4 where "t4 = phase_create_tweets E cfg t0"
  from assms obtain t5 t6 where
    p5: "phase_read_timelines fuel E cfg t4 = Done t5"
    and p6: "phase_check_profiles fuel E cfg t5 = Done t6"
    and p8: "phase_mixed_activity fuel E cfg (phase_unfollow_some E cfg t6) = Done t'"
    unfolding run_runtime_def Let_def t0_def [symmetric] t4_def [symmetric]
    by (auto dest!: and_then_Done)
  have u0: "all_users t0 = all_users t" "regular_users t0 = regular_users t"
    by (simp_all add: t0_def)
  have s4: "step_ge E (tweets_per_user cfg * length (all_users t)) t0 t4"
    using phase_create_tweets_step [of E cfg t0] u0
    by (auto intro: step_geI simp add: t4_def)
  have u4: "all_users t4 = all_users t" "regular_users t4 = regular_users t"
    using step_ge_users [OF s4] u0 by simp_all
  have s5: "step_ge E (timeline_reads_per_user cfg * length (regular_users t)) t4 t5"
    using phase_read_timelines_step [OF p5] u4 by simp
  have u5: "all_users t5 = all_users t" "regular_users t5 = regular_users t"
    using step_ge_users [OF s5] u4 by simp_all
  have s6: "step_ge E (3 * length (all_users t)) t5 t6"
    using phase_check_profiles_step [OF p6] u5 by simp
  have u6: "all_users t6 = all_users t" "regular_users t6 = regular_users t"
    using step_ge_users [OF s6] u5 by simp_all
  have s7: "step_ge E 0 t6 (phase_unfollow_some E cfg t6)"
    by (rule phase_unfollow_some_step)
  have u7: "regular_users (phase_unfollow_some E cfg t6) = regular_users t"
    using step_ge_users [OF s7] u6 by simp
  have s8: "step_ge E (4 * length (regular_users t)) (phase_unfollow_some E cfg t6) t'"
    using phase_mixed_activity_step [OF p8] u7 by simp
  from step_ge_trans [OF step_ge_trans [OF step_ge_trans [OF step_ge_trans [OF s4 s5] s6] s7] s8]
  show ?thesis by (simp add: t0_def)
qed

lemma step_ge_in_runtime:
  assumes "step_ge E c t t'" and "phase (metrics t) \<noteq> ''setup''"
  shows "setup_requests (metrics t') = setup_requests (metrics t)
         \<and> (\<exists>ms. runtime_requests (metrics t') = runtime_requests (metrics t) @ ms
                 \<and> c \<le> length ms \<and> (always_success E \<longrightarrow> list_all rm_success ms))"
proof -
  from assms(1) obtain k where k: "c \<le> k" "did E k (metrics t) (metrics t')"
    unfolding step_ge_def step_def by blast
  from did_in_runtime [OF k(2) assms(2)] k(1) show ?thesis by auto
qed

lemma after_setup_runtime:
  assumes "regular_users t = []" and "celebrities t = []"
    and "runtime_requests (metrics t) = []"
    and "run_runtime fuel E cfg (run_setup E cfg t) = Done tr"
  shows "tweets_per_user cfg * (users_regular cfg + users_celebrities cfg)
           + timeline_reads_per_user cfg * users_regular cfg
           + 3 * (users_regular cfg + users_celebrities cfg) + 4 * users_regular cfg
           \<le> length (runtime_requests (metrics tr))
         \<and> (always_success E \<longrightarrow> list_all rm_success (runtime_requests (metrics tr)))
         \<and> length (setup_requests (metrics t)) + users_regular cfg + users_celebrities cfg
             \<le> length (setup_requests (metrics tr))"
proof -
  define ts where "ts = run_setup E cfg t"
  from run_setup_facts [OF assms(1,2), of E cfg]
  have f: "length (regular_users ts) = users_regular cfg"
    "length (all_users ts) = users_regular cfg + users_celebrities cfg"
    "runtime_requests (metrics ts) = []"
    "length (setup_requests (metrics t)) + users_regular cfg + users_celebrities cfg
             \<le> length (setup_requests (metrics ts))"
    using assms(3) by (simp_all add: ts_def)
  have p: "phase (metrics (ts\<lparr>metrics := set_phase ''runtime'' (metrics ts)\<rparr>)) \<noteq> ''setup''"
    by (simp add: set_phase_def)
  from step_ge_in_runtime [OF run_runtime_steps [OF assms(4) [folded ts_def]] p] f
  show ?thesis by (auto simp add: set_phase_def)
qed

lemma phase4_exact:
  assumes "regular_users t = []" and "celebrities t = []"
  shows "length (runtime_requests (metrics (phase_create_tweets E cfg
           ((run_setup E cfg t)\<lparr>metrics := set_phase ''runtime'' (metrics (run_setup E cfg t))\<rparr>))))
         = length (runtime_requests (metrics t))
           + tweets_per_user cfg * (users_regular cfg + users_celebrities cfg)"
proof -
  define ts where "ts = run_setup E cfg t"
  define t0 where "t0 = ts\<lparr>metrics := set_phase ''runtime'' (metrics ts)\<rparr>"
  from run_setup_facts [OF assms, of E cfg]
  have f: "length (all_users ts) = users_regular cfg + users_celebrities cfg"
    "runtime_requests (metrics ts) = runtime_requests (metrics t)"
    by (simp_all add: ts_def)
  have p: "phase (metrics t0) \<noteq> ''setup''" by (simp add: t0_def set_phase_def)
  have "did E (tweets_per_user cfg * length (all_users t0)) (metrics t0)
          (metrics (phase_create_tweets E cfg t0))"
    using phase_create_tweets_step [of E cfg t0] unfolding step_def by blast
  from did_in_runtime [OF this p] f show ?thesis
    by (auto simp add: t0_def ts_def set_phase_def)
qed

lemma all_success_error_rate:
  assumes "runtime_requests m \<noteq> []" and "list_all rm_success (runtime_requests m)"
  shows "\<exists>st. get_phase_stats m ''runtime'' = Inr st \<and> error_rate_percent st = 0"
proof -
  have "filter rm_success (runtime_requests m) = runtime_requests m"
    using assms(2) by (simp add: list_all_iff)
  then show ?thesis
    using get_phase_stats_nonempty [OF refl, of "''runtime''" m] assms(1)
    by (simp add: error_rate_percent_def)
qed

section \<open>Runs that end\<close>

lemma single_page_result:
  assumes "single_page E"
  shows "\<not> res_success (fst (api_call E cfg meth ep user_id body expected_status t))
         \<or> \<not> truthy (get_data (fst (api_call E cfg meth ep user_id body expected_status t)))
         \<or> (\<exists>c. json_get (get_data (fst (api_call E cfg meth ep user_id body expected_status t)))
                   ''nextCursor'' = Inr c \<and> \<not> truthy c)"
proof (cases "reply (answer E cfg meth ep user_id body t)")
  case (Inl e)
  show ?thesis by (simp add: api_call_raised [OF Inl])
next
  case (Inr p)
  obtain st d where p: "p = (st, d)" by (cases p)
  from assms have "case reply (answer E cfg meth ep user_id body t) of
        Inl e \<Rightarrow> True
      | Inr (st, d) \<Rightarrow> \<not> truthy d \<or> (\<exists>c. json_get d ''nextCursor'' = Inr c \<and> \<not> truthy c)"
    unfolding single_page_def answer_def by blast
  then show ?thesis
    using Inr p by (simp add: api_call_returned [OF Inr [unfolded p]] get_data_def)
qed

lemma paginate_loop_total:
  assumes "\<And>c t. \<not> res_success (fst (fetch c t)) \<or> \<not> truthy (get_data (fst (fetch c t)))
         \<or> (\<exists>c'. json_get (get_data (fst (fetch c t))) ''nextCursor'' = Inr c' \<and> \<not> truthy c')"
  shows "\<exists>r. paginate_loop fetch (Suc fuel) pages cursor t = Done r"
proof -
  obtain r t1 where f: "fetch cursor t = (r, t1)" by (cases "fetch cursor t")
  from assms [of cursor t] f
  have "\<not> res_success r \<or> \<not> truthy (get_data r)
         \<or> (\<exists>c'. json_get (get_data r) ''nextCursor'' = Inr c' \<and> \<not> truthy c')"
    by simp
  then show ?thesis
    by (auto simp add: f Let_def)
qed

lemma paginate_timeline_total:
  assumes "single_page E"
  shows "\<exists>r. paginate_timeline (Suc fuel) E cfg u l t = Done r"
  unfolding paginate_timeline_def get_timeline_def Let_def
  by (rule paginate_loop_total) (rule single_page_result [OF assms])

lemma paginate_tweets_total:
  assumes "single_page E"
  shows "\<exists>r. paginate_tweets (Suc fuel) E cfg u l t = Done r"
  unfolding paginate_tweets_def get_user_tweets_def Let_def
  by (rule paginate_loop_total) (rule single_page_result [OF assms])

lemma gather_total:
  assumes "\<And>x t. \<exists>t'. f x t = Done t'"
  shows "\<exists>t'. gather f xs t = Done t'"
proof (induction xs arbitrary: t)
  case Nil
  then show ?case by simp
next
  case (Cons x xs)
  from assms [of x t] obtain t1 where "f x t = Done t1" by blast
  with Cons.IH [of t1] show ?case by simp
qed

lemma phase_read_timelines_total:
  assumes "single_page E"
  shows "\<exists>t'. phase_read_timelines (Suc fuel) E cfg t = Done t'"
  unfolding phase_read_timelines_def
proof (rule gather_total)
  fix x and t :: "'a LoadTester"
  from paginate_timeline_total [OF assms, of fuel cfg x "page_size_of cfg" t]
  show "\<exists>t'. map_outcome snd (paginate_timeline (Suc fuel) E cfg x (page_size_of cfg) t) = Done t'"
    by auto
qed

lemma phase_check_profiles_total:
  assumes "single_page E"
  shows "\<exists>t'. phase_check_profiles (Suc fuel) E cfg t = Done t'"
  unfolding phase_check_profiles_def
proof (rule gather_total)
  fix x and t :: "'a LoadTester"
  from paginate_tweets_total [OF assms, of fuel cfg x "page_size_of cfg" t]
  show "\<exists>t'. check_and_report (Suc fuel) E cfg x t = Done t'"
    by (auto simp add: check_and_report_def Let_def)
qed

lemma mixed_user_activity_total:
  assumes "single_page E"
  shows "\<exists>t'. mixed_user_activity (Suc fuel) E cfg user round_num t = Done t'"
proof -
  have "\<And>t. \<exists>t'. map_outcome snd (paginate_timeline (Suc fuel) E cfg user (page_size_of cfg) t) = Done t'"
  proof -
    fix t :: "'a LoadTester"
    from paginate_timeline_total [OF assms, of fuel cfg user "page_size_of cfg" t]
    show "\<exists>t'. map_outcome snd (paginate_timeline (Suc fuel) E cfg user (page_size_of cfg) t) = Done t'"
      by auto
  qed
  then show ?thesis
    by (simp add: mixed_user_activity_def Let_def split_beta)
qed

lemma phase_mixed_activity_total:
  assumes "single_page E"
  shows "\<exists>t'. phase_mixed_activity (Suc fuel) E cfg t = Done t'"
  unfolding phase_mixed_activity_def
proof (rule gather_total)
  fix x :: "nat \<times> string" and t :: "'a LoadTester"
  from mixed_user_activity_total [OF assms, of fuel cfg "snd x" "fst x" t]
  show "\<exists>t'. (case x of (round_num, user) \<Rightarrow> mixed_user_activity (Suc fuel) E cfg user round_num) t = Done t'"
    by (simp add: split_beta)
qed

lemma run_runtime_total:
  assumes "single_page E"
  shows "\<exists>t'. run_runtime (Suc fuel) E cfg t = Done t'"
proof -
  define t4 where "t4 = phase_create_tweets E cfg (t\<lparr>metrics := set_phase ''runtime'' (metrics t)\<rparr>)"
  obtain t5 where p5: "phase_read_timelines (Suc fuel) E cfg t4 = Done t5"
    using phase_read_timelines_total [OF assms] by blast
  obtain t6 where p6: "phase_check_profiles (Suc fuel) E cfg t5 = Done t6"
    using phase_check_profiles_total [OF assms] by blast
  obtain t8 where p8: "phase_mixed_activity (Suc fuel) E cfg (phase_unfollow_some E cfg t6) = Done t8"
    using phase_mixed_activity_total [OF assms] by blast
  show ?thesis
    by (simp add: run_runtime_def Let_def t4_def [symmetric] p5 p6 p8)
qed

lemma print_results_total:
  assumes "setup_requests m \<noteq> []" and "runtime_requests m \<noteq> []"
  shows "\<exists>v. print_results rich cfg m = Inr v"
proof -
  obtain st r where st: "get_phase_stats m ''runtime'' = Inr st" "ps_success_rate st = Some r"
    using error_rate_runtime [OF assms(2)] by blast
  obtain st0 r0 where st0: "get_phase_stats m ''setup'' = Inr st0" "ps_success_rate st0 = Some r0"
    using setup_rate [OF assms(1)] by blast
  show ?thesis
    by (simp add: print_results_def st st0 Let_def)
qed

lemma run_healthy:
  assumes "fst (probe E w)"
  shows "\<exists>t2. regular_users t2 = [] \<and> celebrities t2 = []
           \<and> runtime_requests (metrics t2) = [] \<and> setup_requests (metrics t2) = []
           \<and> run fuel rich E cfg (LoadTester_new w)
             = and_then (run_runtime fuel E cfg (run_setup E cfg t2)) (\<lambda>t.
                let (now, w) = perf_counter E (world t);
                    t = t\<lparr>world := w, metrics := (metrics t)\<lparr>end_time := now\<rparr>\<rparr>
                in case print_results rich (limits cfg) (metrics t) of
                     Inl e \<Rightarrow> Raised e
                   | Inr v \<Rightarrow> Done (passed v, t))"
proof -
  obtain h w1 where p: "probe E w = (h, w1)" by (cases "probe E w")
  obtain now w2 where c: "perf_counter E w1 = (now, w2)" by (cases "perf_counter E w1")
  from assms p have h by simp
  then show ?thesis
    by (intro exI [of _ "(LoadTester_new w)\<lparr>world := w2,
           metrics := MetricsCollector_new\<lparr>start_time := now\<rparr>\<rparr>"])
       (simp add: run_def LoadTester_new_def MetricsCollector_new_def p c Let_def)
qed

lemma run_counts:
  assumes "fst (probe E w)" and "run fuel rich E cfg (LoadTester_new w) = Done (ok, t')"
  shows "tweets_per_user cfg * (users_regular cfg + users_celebrities cfg)
           + timeline_reads_per_user cfg * users_regular cfg
           + 3 * (users_regular cfg + users_celebrities cfg) + 4 * users_regular cfg
           \<le> length (runtime_requests (metrics t'))
         \<and> (always_success E \<longrightarrow> list_all rm_success (runtime_requests (metrics t')))"
proof -
  from run_healthy [OF assms(1), of fuel rich cfg] obtain t2 where
    e: "regular_users t2 = []" "celebrities t2 = []" "runtime_requests (metrics t2) = []"
    and r: "run fuel rich E cfg (LoadTester_new w)
             = and_then (run_runtime fuel E cfg (run_setup E cfg t2)) (\<lambda>t.
                let (now, w) = perf_counter E (world t);
                    t = t\<lparr>world := w, metrics := (metrics t)\<lparr>end_time := now\<rparr>\<rparr>
                in case print_results rich (limits cfg) (metrics t) of
                     Inl e \<Rightarrow> Raised e
                   | Inr v \<Rightarrow> Done (passed v, t))"
    by blast
  from assms(2) r obtain tr where
    tr: "run_runtime fuel E cfg (run_setup E cfg t2) = Done tr"
    and fin: "(let (now, w) = perf_counter E (world tr);
                    t = tr\<lparr>world := w, metrics := (metrics tr)\<lparr>end_time := now\<rparr>\<rparr>
                in case print_results rich (limits cfg) (metrics t) of
                     Inl e \<Rightarrow> Raised e
                   | Inr v \<Rightarrow> Done (passed v, t)) = Done (ok, t')"
    by (auto dest!: and_then_Done)
  from fin have "runtime_requests (metrics t') = runtime_requests (metrics tr)"
    by (auto simp add: Let_def split_beta split: sum.splits)
  with after_setup_runtime [OF e tr] show ?thesis by simp
qed

lemma run_total:
  assumes "single_page E" and "fst (probe E w)"
    and "0 < users_regular cfg + users_celebrities cfg"
  shows "\<exists>ok t'. run (Suc fuel) rich E cfg (LoadTester_new w) = Done (ok, t')"
proof -
  from run_healthy [OF assms(2), of "Suc fuel" rich cfg] obtain t2 where
    e: "regular_users t2 = []" "celebrities t2 = []" "runtime_requests (metrics t2) = []"
    and r: "run (Suc fuel) rich E cfg (LoadTester_new w)
             = and_then (run_runtime (Suc fuel) E cfg (run_setup E cfg t2)) (\<lambda>t.
                let (now, w) = perf_counter E (world t);
                    t = t\<lparr>world := w, metrics := (metrics t)\<lparr>end_time := now\<rparr>\<rparr>
                in case print_results rich (limits cfg) (metrics t) of
                     Inl e \<Rightarrow> Raised e
                   | Inr v \<Rightarrow> Done (passed v, t))"
    by blast
  obtain tr where tr: "run_runtime (Suc fuel) E cfg (run_setup E cfg t2) = Done tr"
    using run_runtime_total [OF assms(1)] by blast
  from after_setup_runtime [OF e tr] assms(3)
  have ne: "runtime_requests (metrics tr) \<noteq> []" "setup_requests (metrics tr) \<noteq> []"
    by auto
  obtain now w3 where c: "perf_counter E (world tr) = (now, w3)"
    by (cases "perf_counter E (world tr)")
  define tf where "tf = tr\<lparr>world := w3, metrics := (metrics tr)\<lparr>end_time := now\<rparr>\<rparr>"
  have "setup_requests (metrics tf) \<noteq> []" "runtime_requests (metrics tf) \<noteq> []"
    using ne by (simp_all add: tf_def)
  from print_results_total [OF this, of rich "limits cfg"] obtain v where
    v: "print_results rich (limits cfg) (metrics tf) = Inr v" by blast
  then have "print_results rich (limits cfg) ((metrics tr)\<lparr>end_time := now\<rparr>) = Inr v"
    by (simp add: tf_def)
  then show ?thesis
    by (simp add: r tr c Let_def)
qed

lemma fake_env_facts:
  "always_success fake_env" "single_page fake_env" "fst (probe fake_env w)"
  by (simp_all add: always_success_def single_page_def fake_env_def)

lemma local_config_facts:
  "users_regular local_config = 10" "users_celebrities local_config = 0"
  "tweets_per_user local_config = 1" "timeline_reads_per_user local_config = 0"
  by (simp_all add: local_config_def)

section \<open>The end-to-end scenario\<close>

text \<open>
  Claim C2, as amended. For a scenario with 10 regular users, 0 celebrities, 1 tweet per user
  and 0 timeline reads per user, against a transport that always returns a success status and
  a healthy target, a run that ends has recorded at least 80 runtime outcomes, exactly 10 of
  them in phase 4. All of them are successes, so the runtime error rate is 0 percent. The run
  does end, given fuel, when every body the transport returns is empty or a JSON object with
  no next cursor.
\<close>

theorem always_success_run_records_at_least_eighty:
  assumes "users_regular cfg = 10" and "users_celebrities cfg = 0"
    and "tweets_per_user cfg = 1" and "timeline_reads_per_user cfg = 0"
    and "always_success E" and "fst (probe E w)"
  shows "(run fuel rich E cfg (LoadTester_new w) = Done (ok, t') \<longrightarrow>
           80 \<le> length (runtime_requests (metrics t'))
           \<and> list_all rm_success (runtime_requests (metrics t'))
           \<and> (\<exists>st. get_phase_stats (metrics t') ''runtime'' = Inr st
                   \<and> error_rate_percent st = 0))
         \<and> (single_page E \<longrightarrow>
              (\<exists>ok t'. run (Suc fuel) rich E cfg (LoadTester_new w) = Done (ok, t')))
         \<and> (\<forall>t. regular_users t = [] \<and> celebrities t = [] \<and> runtime_requests (metrics t) = []
               \<longrightarrow> length (runtime_requests (metrics (phase_create_tweets E cfg
                      ((run_setup E cfg t)\<lparr>metrics :=
                         set_phase ''runtime'' (metrics (run_setup E cfg t))\<rparr>)))) = 10)"
proof -
  have finished: "run fuel rich E cfg (LoadTester_new w) = Done (ok, t') \<longrightarrow>
           80 \<le> length (runtime_requests (metrics t'))
           \<and> list_all rm_success (runtime_requests (metrics t'))
           \<and> (\<exists>st. get_phase_stats (metrics t') ''runtime'' = Inr st
                   \<and> error_rate_percent st = 0)"
  proof
    assume r: "run fuel rich E cfg (LoadTester_new w) = Done (ok, t')"
    from run_counts [OF assms(6) r] assms(1-5)
    have n: "80 \<le> length (runtime_requests (metrics t'))"
      and s: "list_all rm_success (runtime_requests (metrics t'))"
      by simp_all
    from n have "runtime_requests (metrics t') \<noteq> []" by auto
    from all_success_error_rate [OF this s] n s
    show "80 \<le> length (runtime_requests (metrics t'))
           \<and> list_all rm_success (runtime_requests (metrics t'))
           \<and> (\<exists>st. get_phase_stats (metrics t') ''runtime'' = Inr st
                   \<and> error_rate_percent st = 0)"
      by blast
  qed
  have ends: "single_page E \<longrightarrow>
              (\<exists>ok t'. run (Suc fuel) rich E cfg (LoadTester_new w) = Done (ok, t'))"
  proof
    assume sp: "single_page E"
    have "0 < users_regular cfg + users_celebrities cfg" using assms(1) by simp
    from run_total [OF sp assms(6) this]
    show "\<exists>ok t'. run (Suc fuel) rich E cfg (LoadTester_new w) = Done (ok, t')" .
  qed
  have "\<forall>t. regular_users t = [] \<and> celebrities t = [] \<and> runtime_requests (metrics t) = []
               \<longrightarrow> length (runtime_requests (metrics (phase_create_tweets E cfg
                      ((run_setup E cfg t)\<lparr>metrics :=
                         set_phase ''runtime'' (metrics (run_setup E cfg t))\<rparr>)))) = 10"
    using phase4_exact [of _ E cfg] assms(1-3) by simp
  with finished ends show ?thesis by blast
qed

theorem always_success_run_records_at_least_eighty_witness:
  "users_regular local_config = 10 \<and> users_celebrities local_config = 0
   \<and> tweets_per_user local_config = 1 \<and> timeline_reads_per_user local_config = 0
   \<and> always_success fake_env \<and> fst (probe fake_env 0) \<and> single_page fake_env
   \<and> (\<exists>ok t'. run (Suc 0) True fake_env local_config (LoadTester_new 0) = Done (ok, t')
         \<and> 80 \<le> length (runtime_requests (metrics t'))
         \<and> list_all rm_success (runtime_requests (metrics t')))"
proof -
  from always_success_run_records_at_least_eighty
         [OF local_config_facts fake_env_facts(1) fake_env_facts(3) [of 0],
          where fuel = 0 and rich = True]
    fake_env_facts(2)
  obtain ok t' where r: "run (Suc 0) True fake_env local_config (LoadTester_new 0) = Done (ok, t')"
    by blast
  from always_success_run_records_at_least_eighty
         [OF local_config_facts fake_env_facts(1) fake_env_facts(3) [of 0],
          where fuel = "Suc 0" and rich = True and ok = ok and t' = t'] r
  have "80 \<le> length (runtime_requests (metrics t'))
         \<and> list_all rm_success (runtime_requests (metrics t'))"
    by blast
  with r local_config_facts fake_env_facts show ?thesis by blast
qed

text \<open>
  Claim C2 as stated fails: against the fake transport that always returns success, the run of
  this scenario ends and its runtime phase does not hold 10 outcomes.
\<close>

theorem always_success_run_does_not_record_ten:
  "runtime_outcomes (run 1 True fake_env local_config (LoadTester_new 0)) \<noteq> Done 10"
proof -
  obtain ok t' where r: "run 1 True fake_env local_config (LoadTester_new 0) = Done (ok, t')"
    using run_total [OF fake_env_facts(2) fake_env_facts(3) [of 0],
        where cfg = local_config and fuel = 0 and rich = True]
    by (auto simp add: local_config_facts)
  from run_counts [OF fake_env_facts(3) r]
  have "80 \<le> length (runtime_requests (metrics t'))"
    by (simp add: local_config_facts)
  then show ?thesis unfolding runtime_outcomes_def r by simp
qed

section \<open>Pagination on a payload that is not an object\<close>

text \<open>
  One round of the loop: it stops after the request when the response is unsuccessful, when
  the payload is empty, or when the payload is an object whose \<open>nextCursor\<close> is missing or
  empty; it goes on with the returned cursor otherwise; and it raises on a payload that is not
  an object.
\<close>

lemma paginate_loop_round:
  assumes "fetch cursor t = (r, t1)"
  shows "paginate_loop fetch (Suc fuel) pages cursor t =
     (if \<not> res_success r \<or> \<not> truthy (get_data r) then Done (pages + 1, t1)
      else case get_data r of
             JObj kvs \<Rightarrow>
               (case map_of kvs ''nextCursor'' of
                  None \<Rightarrow> Done (pages + 1, t1)
                | Some c \<Rightarrow> if \<not> truthy c then Done (pages + 1, t1)
                            else paginate_loop fetch fuel (pages + 1) c t1)
           | _ \<Rightarrow> Raised (AttributeError ''get''))"
  by (cases "get_data r") (simp_all add: assms Let_def split: option.splits)

text \<open>
  Three pages: against answers that carry the cursors \<open>a\<close>, \<open>b\<close> and then an empty cursor, the
  helper issues exactly 3 requests and leaves the fourth answer unused.
\<close>

lemma paginate_three_pages:
  "\<exists>t'. paginate_timeline (Suc (Suc (Suc fuel))) scripted_env local_config ''u1'' 10
     (LoadTester_new
        [\<lparr>waited = 0, elapsed = 1, reply = Inr (200, JObj [(''nextCursor'', JStr ''a'')])\<rparr>,
         \<lparr>waited = 0, elapsed = 1, reply = Inr (200, JObj [(''nextCursor'', JStr ''b'')])\<rparr>,
         \<lparr>waited = 0, elapsed = 1, reply = Inr (200, JObj [(''nextCursor'', JStr [])])\<rparr>,
         \<lparr>waited = 0, elapsed = 1, reply = Inr (200, JObj [(''nextCursor'', JStr ''c'')])\<rparr>])
   = Done (3, t') \<and> length (requests (metrics t')) = 3
     \<and> world t' = [\<lparr>waited = 0, elapsed = 1, reply = Inr (200, JObj [(''nextCursor'', JStr ''c'')])\<rparr>]"
  by (simp add: paginate_timeline_def get_timeline_def api_call_def scripted_env_def
        local_config_def LoadTester_new_def MetricsCollector_new_def get_data_def Let_def
        requests_record)

text \<open>
  Claim C6 fails on a successful response whose payload is not a JSON object, such as a body of
  plain text, which \<open>api_call\<close> hands on as a string: the payload has no next-cursor field, so
  the claim has the helper stop, but \<open>result["data"].get\<close> raises \<open>AttributeError\<close> and the helper
  neither stops nor repeats. The smoke test of the same file guards the same read with
  \<open>isinstance(data, dict)\<close>.
\<close>

theorem paginate_raises_on_text_payload:
  "paginate_timeline (Suc fuel) scripted_env local_config ''u1'' 10
     (LoadTester_new [\<lparr>waited = 0, elapsed = 1, reply = Inr (200, JStr ''OK'')\<rparr>])
   = Raised (AttributeError ''get'')
   \<and> paginate_tweets (Suc fuel) scripted_env local_config ''u1'' 10
     (LoadTester_new [\<lparr>waited = 0, elapsed = 1, reply = Inr (200, JArr [JNum 1])\<rparr>])
   = Raised (AttributeError ''get'')"
  by (simp add: paginate_timeline_def paginate_tweets_def get_timeline_def get_user_tweets_def
        api_call_def scripted_env_def local_config_def LoadTester_new_def get_data_def Let_def)

section \<open>Path normalisation\<close>

lemma py_split_nonempty: "py_split c s \<noteq> []"
  by (induction s) (auto split: list.splits)

lemma py_join_split: "py_join c (py_split c s) = s"
proof (induction s)
  case Nil
  then show ?case by simp
next
  case (Cons x s)
  obtain h t where ht: "py_split c s = h # t"
    using py_split_nonempty [of c s] by (cases "py_split c s") auto
  with Cons show ?case by (cases t) auto
qed

lemma py_split_free: "seg \<in> set (py_split c s) \<Longrightarrow> c \<notin> set seg"
proof (induction s arbitrary: seg)
  case Nil
  then show ?case by simp
next
  case (Cons x s)
  obtain h t where ht: "py_split c s = h # t"
    using py_split_nonempty [of c s] by (cases "py_split c s") auto
  with Cons show ?case by (auto split: if_splits)
qed

lemma py_split_no_sep: "c \<notin> set s \<Longrightarrow> py_split c s = [s]"
  by (induction s) auto

lemma py_split_append: "c \<notin> set a \<Longrightarrow> py_split c (a @ c # b) = a # py_split c b"
  by (induction a) auto

lemma py_split_join:
  "segs \<noteq> [] \<Longrightarrow> \<forall>seg \<in> set segs. c \<notin> set seg \<Longrightarrow> py_split c (py_join c segs) = segs"
proof (induction c segs rule: py_join.induct)
  case (1 c)
  then show ?case by simp
next
  case (2 c s)
  then show ?case by (simp add: py_split_no_sep)
next
  case (3 c s t ts)
  then show ?case by (simp add: py_split_append)
qed

lemma set_py_join: "set (py_join c segs) \<subseteq> insert c (\<Union> (set ` set segs))"
  by (induction c segs rule: py_join.induct) auto

lemma py_replace_same_or_new:
  "old \<noteq> [] \<Longrightarrow> py_replace old new s = s \<or> sublist new (py_replace old new s)"
proof (induction old new s rule: py_replace.induct)
  case (1 old new)
  then show ?case by simp
next
  case (2 old new x xs)
  show ?case
  proof (cases "prefix old (x # xs)")
    case True
    then show ?thesis using 2(4) by (simp add: sublist_append_leftI)
  next
    case False
    with 2(3) [OF 2(4) False] 2(4) show ?thesis
      by (auto simp add: sublist_Cons_right)
  qed
qed

lemma set_py_replace: "old \<noteq> [] \<Longrightarrow> set (py_replace old new s) \<subseteq> set s \<union> set new"
proof (induction old new s rule: py_replace.induct)
  case (1 old new)
  then show ?case by simp
next
  case (2 old new x xs)
  show ?case
  proof (cases "prefix old (x # xs)")
    case True
    have "set (drop (length old) (x # xs)) \<subseteq> set (x # xs)" by (rule set_drop_subset)
    with 2(2) [OF 2(4) True] 2(4) True show ?thesis by auto
  next
    case False
    with 2(3) [OF 2(4) False] 2(4) show ?thesis by auto
  qed
qed

lemma py_replace_self: "old \<noteq> [] \<Longrightarrow> py_replace old new old = new"
  by (cases old) auto

lemma py_replace_short: "length s < length old \<Longrightarrow> py_replace old new s = s"
proof (induction old new s rule: py_replace.induct)
  case (1 old new)
  then show ?case by auto
next
  case (2 old new x xs)
  have "\<not> prefix old (x # xs)"
    using 2(4) by (auto dest: prefix_length_le)
  moreover have "old \<noteq> []" using 2(4) by auto
  ultimately show ?case using 2 by auto
qed

lemma prefix_before_sep:
  assumes "c \<notin> set old"
  shows "prefix old (a @ c # b) \<longleftrightarrow> prefix old a"
proof
  assume "prefix old a"
  then show "prefix old (a @ c # b)" by (rule prefix_prefix)
next
  assume p: "prefix old (a @ c # b)"
  then have "prefix old a \<or> (\<exists>us. old = a @ us \<and> prefix us (c # b))"
    by (auto simp add: prefix_append)
  then show "prefix old a"
  proof
    assume "prefix old a" then show ?thesis .
  next
    assume "\<exists>us. old = a @ us \<and> prefix us (c # b)"
    then obtain us where us: "old = a @ us" "prefix us (c # b)" by blast
    with assms have "us = []" by (cases us) (auto simp add: prefix_Cons)
    with us show ?thesis by simp
  qed
qed

lemma py_replace_sep:
  assumes "old \<noteq> []" and "c \<notin> set old"
  shows "py_replace old new (a @ c # b) = py_replace old new a @ c # py_replace old new b"
  using assms
proof (induction old new a rule: py_replace.induct)
  case (1 old new)
  then have "\<not> prefix old (c # b)" by (cases old) (auto simp add: prefix_Cons)
  with 1 show ?case by simp
next
  case (2 old new x xs)
  show ?case
  proof (cases "prefix old (x # xs)")
    case True
    then have le: "length old \<le> length (x # xs)" by (rule prefix_length_le)
    have p: "prefix old ((x # xs) @ c # b)" using True by (rule prefix_prefix)
    have "length old - length (x # xs) = 0" using le by simp
    then have "drop (length old) ((x # xs) @ c # b) = drop (length old) (x # xs) @ c # b"
      by (simp only: drop_append drop_0)
    with 2(2) [OF 2(4) True 2(4) 2(5)] p True 2(4) show ?thesis by simp
  next
    case False
    then have "\<not> prefix old ((x # xs) @ c # b)"
      using prefix_before_sep [OF 2(5), of "x # xs" b] by simp
    with 2(3) [OF 2(4) False 2(4) 2(5)] False 2(4) show ?thesis by simp
  qed
qed

lemma py_replace_join:
  assumes "old \<noteq> []" and "c \<notin> set old"
  shows "py_replace old new (py_join c segs) = py_join c (map (py_replace old new) segs)"
  using assms
proof (induction c segs rule: py_join.induct)
  case (1 c)
  then show ?case by simp
next
  case (2 c s)
  then show ?case by simp
next
  case (3 c s t ts)
  then show ?case by (simp add: py_replace_sep)
qed

lemma endpoint_key_fold:
  "endpoint_key ok ep
   = foldl (replace_ids ok) (hd (py_split CHR ''?'' ep))
       (py_split CHR ''/'' (hd (py_split CHR ''?'' ep)))"
proof -
  have "(\<lambda>key segment. if ok segment then py_replace segment ''{id}'' key else key)
        = replace_ids ok"
    by (intro ext) (simp add: replace_ids_def)
  then show ?thesis by (simp add: endpoint_key_def Let_def)
qed

lemma replace_ids_join:
  assumes "ok x \<longrightarrow> x \<noteq> [] \<and> c \<notin> set x"
  shows "replace_ids ok (py_join c cur) x = py_join c (map (\<lambda>v. replace_ids ok v x) cur)"
proof (cases "ok x")
  case True
  with assms py_replace_join [of x c "''{id}''" cur] show ?thesis
    by (simp add: replace_ids_def)
next
  case False
  then show ?thesis by (simp add: replace_ids_def)
qed

lemma fold_replace_ids_join:
  assumes "\<forall>x \<in> set xs. ok x \<longrightarrow> x \<noteq> [] \<and> c \<notin> set x"
  shows "foldl (replace_ids ok) (py_join c cur) xs
         = py_join c (map (\<lambda>v. foldl (replace_ids ok) v xs) cur)"
  using assms
proof (induction xs arbitrary: cur)
  case Nil
  then show ?case by simp
next
  case (Cons x xs)
  have "replace_ids ok (py_join c cur) x = py_join c (map (\<lambda>v. replace_ids ok v x) cur)"
    using Cons.prems by (intro replace_ids_join) simp
  moreover have "foldl (replace_ids ok) (py_join c (map (\<lambda>v. replace_ids ok v x) cur)) xs
         = py_join c (map (\<lambda>v. foldl (replace_ids ok) v xs) (map (\<lambda>v. replace_ids ok v x) cur))"
    using Cons.prems by (intro Cons.IH) simp
  ultimately show ?case by (simp add: comp_def)
qed

lemma replace_ids_same_or_id:
  assumes "ok x \<longrightarrow> x \<noteq> []"
  shows "replace_ids ok v x = v \<or> sublist ''{id}'' (replace_ids ok v x)"
  using assms py_replace_same_or_new [where old = x and new = "''{id}''" and s = v]
  by (auto simp add: replace_ids_def)

lemma replace_ids_keeps_id:
  assumes "ok x \<longrightarrow> x \<noteq> []" and "sublist ''{id}'' v"
  shows "sublist ''{id}'' (replace_ids ok v x)"
  using replace_ids_same_or_id [where ok = ok and x = x and v = v, OF assms(1)] assms(2)
  by auto

lemma fold_keeps_id:
  assumes "\<forall>x \<in> set xs. ok x \<longrightarrow> x \<noteq> []" and "sublist ''{id}'' v"
  shows "sublist ''{id}'' (foldl (replace_ids ok) v xs)"
  using assms
proof (induction xs arbitrary: v)
  case Nil
  then show ?case by simp
next
  case (Cons x xs)
  have "sublist ''{id}'' (replace_ids ok v x)"
    using Cons.prems by (intro replace_ids_keeps_id) simp_all
  with Cons.IH [of "replace_ids ok v x"] Cons.prems(1) show ?case by simp
qed

lemma fold_same_or_id:
  assumes "\<forall>x \<in> set xs. ok x \<longrightarrow> x \<noteq> []"
  shows "foldl (replace_ids ok) v xs = v \<or> sublist ''{id}'' (foldl (replace_ids ok) v xs)"
  using assms
proof (induction xs arbitrary: v)
  case Nil
  then show ?case by simp
next
  case (Cons x xs)
  have a: "replace_ids ok v x = v \<or> sublist ''{id}'' (replace_ids ok v x)"
    using Cons.prems by (intro replace_ids_same_or_id) simp
  have rest: "\<forall>x \<in> set xs. ok x \<longrightarrow> x \<noteq> []" using Cons.prems by simp
  from a show ?case
  proof
    assume "replace_ids ok v x = v"
    with Cons.IH [OF rest, of v] show ?thesis by simp
  next
    assume "sublist ''{id}'' (replace_ids ok v x)"
    from fold_keeps_id [OF rest this] show ?thesis by simp
  qed
qed

lemma fold_replaces_valid:
  assumes "\<forall>x \<in> set xs. ok x \<longrightarrow> x \<noteq> []" and "seg \<in> set xs" and "ok seg"
    and "v = seg \<or> sublist ''{id}'' v"
  shows "sublist ''{id}'' (foldl (replace_ids ok) v xs)"
  using assms
proof (induction xs arbitrary: v)
  case Nil
  then show ?case by simp
next
  case (Cons x xs)
  have rest: "\<forall>x \<in> set xs. ok x \<longrightarrow> x \<noteq> []" using Cons.prems(1) by simp
  have okx: "ok x \<longrightarrow> x \<noteq> []" using Cons.prems(1) by simp
  show ?case
  proof (cases "x = seg")
    case True
    have "sublist ''{id}'' (replace_ids ok v x)"
    proof (cases "v = seg")
      case True
      with \<open>x = seg\<close> Cons.prems(3) okx show ?thesis
        by (simp add: replace_ids_def py_replace_self)
    next
      case False
      with Cons.prems(4) have "sublist ''{id}'' v" by simp
      with okx show ?thesis
        by (intro replace_ids_keeps_id [where ok = ok and x = x and v = v])
    qed
    from fold_keeps_id [OF rest this] show ?thesis by simp
  next
    case False
    with Cons.prems(2) have mem: "seg \<in> set xs" by simp
    have "replace_ids ok v x = seg \<or> sublist ''{id}'' (replace_ids ok v x)"
      using replace_ids_same_or_id [where ok = ok and x = x and v = v, OF okx]
        replace_ids_keeps_id [where ok = ok and x = x and v = v, OF okx]
        Cons.prems(4) by auto
    from Cons.IH [OF rest mem Cons.prems(3) this] show ?thesis by simp
  qed
qed

lemma fold_result_invalid:
  assumes "uuid_library ok" and "seg \<in> set xs"
  shows "\<not> ok (foldl (replace_ids ok) seg xs)"
proof -
  have ne: "\<forall>x \<in> set xs. ok x \<longrightarrow> x \<noteq> []"
    using assms(1) unfolding uuid_library_def by fastforce
  have noid: "\<And>s. sublist ''{id}'' s \<Longrightarrow> \<not> ok s"
    using assms(1) unfolding uuid_library_def by blast
  show ?thesis
  proof (cases "ok seg")
    case True
    from fold_replaces_valid [OF ne assms(2) True, of seg] show ?thesis
      by (simp add: noid)
  next
    case False
    with fold_same_or_id [OF ne, of seg] show ?thesis
      by (auto simp add: noid)
  qed
qed

lemma fold_invalid_segments:
  assumes "\<forall>x \<in> set xs. \<not> ok x"
  shows "foldl (replace_ids ok) k xs = k"
  using assms by (induction xs arbitrary: k) (simp_all add: replace_ids_def)

lemma set_fold_replace_ids:
  assumes "\<forall>x \<in> set xs. ok x \<longrightarrow> x \<noteq> []"
  shows "set (foldl (replace_ids ok) v xs) \<subseteq> set v \<union> set ''{id}''"
  using assms
proof (induction xs arbitrary: v)
  case Nil
  then show ?case by auto
next
  case (Cons x xs)
  have "set (replace_ids ok v x) \<subseteq> set v \<union> set ''{id}''"
    using Cons.prems set_py_replace [of x "''{id}''" v] by (auto simp add: replace_ids_def)
  moreover have "set (foldl (replace_ids ok) (replace_ids ok v x) xs)
                 \<subseteq> set (replace_ids ok v x) \<union> set ''{id}''"
    using Cons.prems by (intro Cons.IH) simp
  ultimately show ?case by auto
qed

lemma py_split_subset: "seg \<in> set (py_split c s) \<Longrightarrow> set seg \<subseteq> set s"
proof -
  assume a: "seg \<in> set (py_split c s)"
  have "set (py_join c (py_split c s)) = set s" by (simp add: py_join_split)
  moreover have "\<And>segs. seg \<in> set segs \<Longrightarrow> set seg \<subseteq> set (py_join c segs)"
  proof -
    fix segs show "seg \<in> set segs \<Longrightarrow> set seg \<subseteq> set (py_join c segs)"
      by (induction c segs rule: py_join.induct) auto
  qed
  ultimately show ?thesis using a by blast
qed

lemma endpoint_key_idempotent:
  assumes "uuid_library ok"
  shows "endpoint_key ok (endpoint_key ok ep) = endpoint_key ok ep"
proof -
  define key0 where "key0 = hd (py_split CHR ''?'' ep)"
  define segs where "segs = py_split CHR ''/'' key0"
  define F where "F = map (\<lambda>v. foldl (replace_ids ok) v segs) segs"
  have ne: "\<forall>x \<in> set segs. ok x \<longrightarrow> x \<noteq> []"
    using assms unfolding uuid_library_def by fastforce
  have free: "\<forall>x \<in> set segs. CHR ''/'' \<notin> set x"
    using py_split_free [of _ "CHR ''/''" key0] by (auto simp add: segs_def)
  have "key0 \<in> set (py_split CHR ''?'' ep)"
    using py_split_nonempty [of "CHR ''?''" ep] by (simp add: key0_def)
  then have q0: "CHR ''?'' \<notin> set key0" by (rule py_split_free)
  have K: "endpoint_key ok ep = py_join CHR ''/'' F"
  proof -
    have "endpoint_key ok ep = foldl (replace_ids ok) (py_join CHR ''/'' segs) segs"
      by (simp add: endpoint_key_fold key0_def [symmetric] segs_def py_join_split)
    also have "\<dots> = py_join CHR ''/'' F"
      unfolding F_def using ne free by (intro fold_replace_ids_join) auto
    finally show ?thesis .
  qed
  have elems: "\<forall>v \<in> set F. set v \<subseteq> set key0 \<union> set ''{id}'' \<and> CHR ''/'' \<notin> set v \<and> \<not> ok v"
  proof
    fix v assume "v \<in> set F"
    then obtain seg where seg: "seg \<in> set segs" "v = foldl (replace_ids ok) seg segs"
      by (auto simp add: F_def)
    have sub: "set v \<subseteq> set seg \<union> set ''{id}''"
      unfolding seg(2) by (rule set_fold_replace_ids [OF ne])
    have "set seg \<subseteq> set key0" using seg(1) py_split_subset by (auto simp add: segs_def)
    moreover have "CHR ''/'' \<notin> set seg" using free seg(1) by blast
    moreover have "\<not> ok v" unfolding seg(2) by (rule fold_result_invalid [OF assms seg(1)])
    ultimately show "set v \<subseteq> set key0 \<union> set ''{id}'' \<and> CHR ''/'' \<notin> set v \<and> \<not> ok v"
      using sub by auto
  qed
  have Fne: "F \<noteq> []" using py_split_nonempty [of "CHR ''/''" key0] by (simp add: F_def segs_def)
  have "set (py_join CHR ''/'' F) \<subseteq> insert CHR ''/'' (\<Union> (set ` set F))"
    by (rule set_py_join)
  with elems q0 have q: "CHR ''?'' \<notin> set (py_join CHR ''/'' F)" by auto
  have h: "hd (py_split CHR ''?'' (py_join CHR ''/'' F)) = py_join CHR ''/'' F"
    by (simp add: py_split_no_sep [OF q])
  have sp: "py_split CHR ''/'' (py_join CHR ''/'' F) = F"
    using Fne elems by (intro py_split_join) auto
  have "endpoint_key ok (py_join CHR ''/'' F) = foldl (replace_ids ok) (py_join CHR ''/'' F) F"
    by (simp add: endpoint_key_fold h sp)
  also have "\<dots> = py_join CHR ''/'' F"
    using elems by (intro fold_invalid_segments) auto
  finally show ?thesis by (simp add: K)
qed

lemma api_call_outcome:
  "\<exists>metric.
     requests (metrics (snd (api_call E cfg meth ep user_id body expected_status t)))
       = requests (metrics t) @ [metric]
     \<and> http_method metric = meth
     \<and> endpoint metric = endpoint_key (uuid_ok E) ep"
proof (cases "reply (answer E cfg meth ep user_id body t)")
  case (Inl e)
  show ?thesis
    by (simp add: api_call_raised [OF Inl] requests_record)
next
  case (Inr p)
  obtain st d where p: "p = (st, d)" by (cases p)
  show ?thesis
    by (simp add: api_call_returned [OF Inr [unfolded p]] requests_record)
qed

lemma endpoint_key_user_tweets:
  assumes "uuid_library ok" and "ok a"
  shows "endpoint_key ok (''/users/'' @ a @ ''/tweets'') = ''/users/{id}/tweets''"
proof -
  from assms have a: "32 \<le> length a" "CHR ''/'' \<notin> set a" "CHR ''?'' \<notin> set a"
    unfolding uuid_library_def by auto
  have short: "\<And>s. length s < 32 \<Longrightarrow> \<not> ok s"
    using assms(1) unfolding uuid_library_def by fastforce
  have ne: "a \<noteq> []" using a(1) by auto
  have q: "CHR ''?'' \<notin> set (''/users/'' @ a @ ''/tweets'')" using a(3) by simp
  have k0: "hd (py_split CHR ''?'' (''/users/'' @ a @ ''/tweets'')) = ''/users/'' @ a @ ''/tweets''"
    by (simp only: py_split_no_sep [OF q] list.sel)
  have sp: "py_split CHR ''/'' (''/users/'' @ a @ ''/tweets'') = [[], ''users'', a, ''tweets'']"
    using py_split_append [OF a(2), of "''tweets''"] by simp
  have j: "''/users/'' @ a @ ''/tweets'' = py_join CHR ''/'' [[], ''users'', a, ''tweets'']"
    by simp
  have r: "py_replace a ''{id}'' (''/users/'' @ a @ ''/tweets'') = ''/users/{id}/tweets''"
  proof -
    have "py_replace a ''{id}'' (py_join CHR ''/'' [[], ''users'', a, ''tweets''])
          = py_join CHR ''/'' (map (py_replace a ''{id}'') [[], ''users'', a, ''tweets''])"
      using ne a(2) by (rule py_replace_join)
    moreover have "py_replace a ''{id}'' ''users'' = ''users''"
      using a(1) by (intro py_replace_short) simp
    moreover have "py_replace a ''{id}'' ''tweets'' = ''tweets''"
      using a(1) by (intro py_replace_short) simp
    moreover have "py_replace a ''{id}'' [] = []" using ne by simp
    moreover have "py_replace a ''{id}'' a = ''{id}''" using ne by (rule py_replace_self)
    ultimately show ?thesis by (simp only: j list.map py_join.simps) simp
  qed
  have n1: "\<not> ok []" "\<not> ok ''users''" "\<not> ok ''tweets''"
    by (simp_all add: short)
  show ?thesis
    by (simp only: endpoint_key_fold k0 sp foldl.simps replace_ids_def n1 assms(2) if_True
          if_False r)
qed

lemma canonical_uuid_library: "uuid_library canonical_uuid"
  unfolding uuid_library_def
proof (intro allI impI)
  fix s assume c: "canonical_uuid s"
  then have m: "map (\<lambda>c. if is_hex c then CHR ''0'' else c) s
                = ''00000000-0000-0000-0000-000000000000''"
    by (simp add: canonical_uuid_def)
  from arg_cong [OF m, of length] have len: "length s = 36" by simp
  have chars: "\<And>x. x \<in> set s \<Longrightarrow> is_hex x \<or> x = CHR ''-''"
  proof -
    fix x assume "x \<in> set s"
    then have "(if is_hex x then CHR ''0'' else x)
               \<in> set (map (\<lambda>c. if is_hex c then CHR ''0'' else c) s)"
      by auto
    then have "(if is_hex x then CHR ''0'' else x) \<in> set ''00000000-0000-0000-0000-000000000000''"
      by (simp only: m)
    then show "is_hex x \<or> x = CHR ''-''"
      by (cases "is_hex x") (auto simp add: is_hex_def)
  qed
  have slash: "CHR ''/'' \<notin> set s" using chars [of "CHR ''/''"] by (auto simp add: is_hex_def)
  have quest: "CHR ''?'' \<notin> set s" using chars [of "CHR ''?''"] by (auto simp add: is_hex_def)
  have brace: "CHR ''{'' \<notin> set s" using chars [of "CHR ''{''"] by (auto simp add: is_hex_def)
  have "\<not> sublist ''{id}'' s"
  proof
    assume "sublist ''{id}'' s"
    then have "set ''{id}'' \<subseteq> set s" by (rule set_mono_sublist)
    with brace show False by simp
  qed
  with len slash quest
  show "32 \<le> length s \<and> CHR ''/'' \<notin> set s \<and> CHR ''?'' \<notin> set s \<and> \<not> sublist ''{id}'' s"
    by simp
qed

text \<open>
  Claim C9. The key under which \<open>api_call\<close> files an outcome is a function of the method and
  the raw path alone: whatever the state, the user, the body, the acceptable statuses and the
  answer of the transport, the recorded endpoint is \<open>endpoint_key\<close> of the path. Normalising a
  normalised path changes nothing, and for any two identifiers that \<open>uuid.UUID\<close> accepts the
  paths \<open>/users/A/tweets\<close> and \<open>/users/B/tweets\<close> get the same key. The hypothesis lists the
  facts about \<open>uuid.UUID\<close> that the proof uses.
\<close>

theorem endpoint_key_pure_idempotent_and_merges_ids:
  assumes "uuid_library (uuid_ok E)"
  shows "endpoint (last (requests (metrics (snd
            (api_call E cfg meth ep user_id body expected_status t)))))
           = endpoint_key (uuid_ok E) ep
         \<and> bucket_key (last (requests (metrics (snd
            (api_call E cfg meth ep user_id body expected_status t)))))
           = meth @ '' '' @ endpoint_key (uuid_ok E) ep
         \<and> endpoint_key (uuid_ok E) (endpoint_key (uuid_ok E) ep) = endpoint_key (uuid_ok E) ep
         \<and> (uuid_ok E a \<and> uuid_ok E b \<longrightarrow>
              endpoint_key (uuid_ok E) (''/users/'' @ a @ ''/tweets'')
              = endpoint_key (uuid_ok E) (''/users/'' @ b @ ''/tweets''))"
proof -
  obtain metric where m: "requests (metrics (snd (api_call E cfg meth ep user_id body expected_status t)))
       = requests (metrics t) @ [metric]"
    "http_method metric = meth" "endpoint metric = endpoint_key (uuid_ok E) ep"
    using api_call_outcome [of E cfg meth ep user_id body expected_status t] by blast
  have "uuid_ok E a \<and> uuid_ok E b \<longrightarrow>
              endpoint_key (uuid_ok E) (''/users/'' @ a @ ''/tweets'')
              = endpoint_key (uuid_ok E) (''/users/'' @ b @ ''/tweets'')"
  proof (intro impI, elim conjE)
    assume a: "uuid_ok E a" and b: "uuid_ok E b"
    show "endpoint_key (uuid_ok E) (''/users/'' @ a @ ''/tweets'')
              = endpoint_key (uuid_ok E) (''/users/'' @ b @ ''/tweets'')"
      by (simp only: endpoint_key_user_tweets [OF assms a] endpoint_key_user_tweets [OF assms b])
  qed
  with m endpoint_key_idempotent [OF assms, of ep] show ?thesis
    by (simp add: bucket_key_def)
qed

theorem endpoint_key_pure_idempotent_and_merges_ids_witness:
  "uuid_library (uuid_ok scripted_env)
   \<and> uuid_ok scripted_env ''3f2b8c1e-5d47-4a90-8e6b-0c1d2e3f4a5b''
   \<and> uuid_ok scripted_env ''9a8b7c6d-1e2f-4a3b-9c4d-5e6f7a8b9c0d''
   \<and> endpoint_key (uuid_ok scripted_env)
        (''/users/'' @ ''3f2b8c1e-5d47-4a90-8e6b-0c1d2e3f4a5b'' @ ''/tweets'')
     = endpoint_key (uuid_ok scripted_env)
        (''/users/'' @ ''9a8b7c6d-1e2f-4a3b-9c4d-5e6f7a8b9c0d'' @ ''/tweets'')"
proof -
  have l: "uuid_library (uuid_ok scripted_env)"
    by (simp add: scripted_env_def canonical_uuid_library)
  have a: "uuid_ok scripted_env ''3f2b8c1e-5d47-4a90-8e6b-0c1d2e3f4a5b''"
    by (simp add: scripted_env_def canonical_uuid_def is_hex_def)
  have b: "uuid_ok scripted_env ''9a8b7c6d-1e2f-4a3b-9c4d-5e6f7a8b9c0d''"
    by (simp add: scripted_env_def canonical_uuid_def is_hex_def)
  from endpoint_key_pure_idempotent_and_merges_ids
         [OF l, of local_config "''GET''" "''/x''" "''u''" None None "LoadTester_new []"
            "''3f2b8c1e-5d47-4a90-8e6b-0c1d2e3f4a5b''" "''9a8b7c6d-1e2f-4a3b-9c4d-5e6f7a8b9c0d''"]
    a b
  have "endpoint_key (uuid_ok scripted_env)
        (''/users/'' @ ''3f2b8c1e-5d47-4a90-8e6b-0c1d2e3f4a5b'' @ ''/tweets'')
     = endpoint_key (uuid_ok scripted_env)
        (''/users/'' @ ''9a8b7c6d-1e2f-4a3b-9c4d-5e6f7a8b9c0d'' @ ''/tweets'')"
    by blast
  with l a b show ?thesis by blast
qed

end
